theory Spec2Isabelle
  imports Main "HOL-Library.Log_Nat"
begin

section \<open>JavaScript strings\<close>

text \<open>
  A JavaScript string is a sequence of UTF-16 code units. A code unit is modelled as a
  natural number (below 65536 in every string the program can hold); \<open>length\<close> counts
  code units, as \<^verbatim>\<open>String.prototype.length\<close> does. ASCII literals are written with
  \<open>js\<close>; other text is written as its list of code units.
\<close>

type_synonym jschar = nat
type_synonym jsstring = "jschar list"

definition js :: "string \<Rightarrow> jsstring" where
  "js s = map of_char s"

text \<open>Character classes of the regular expression dialect (no \<^verbatim>\<open>u\<close> flag).\<close>

definition isDigit :: "jschar \<Rightarrow> bool" where
  "isDigit c = (48 \<le> c \<and> c \<le> 57)"

definition isUpper :: "jschar \<Rightarrow> bool" where
  "isUpper c = (65 \<le> c \<and> c \<le> 90)"

definition isLower :: "jschar \<Rightarrow> bool" where
  "isLower c = (97 \<le> c \<and> c \<le> 122)"

definition isAlpha :: "jschar \<Rightarrow> bool" where
  "isAlpha c = (isUpper c \<or> isLower c)"

definition isHexDigit :: "jschar \<Rightarrow> bool" where
  "isHexDigit c = (isDigit c \<or> (65 \<le> c \<and> c \<le> 70) \<or> (97 \<le> c \<and> c \<le> 102))"

text \<open>\<^verbatim>\<open>\w\<close>: the characters on whose borders \<^verbatim>\<open>\b\<close> matches.\<close>

definition isWordChar :: "jschar \<Rightarrow> bool" where
  "isWordChar c = (isDigit c \<or> isAlpha c \<or> c = 95)"

text \<open>Line terminators: LF, CR, U+2028, U+2029. The dot matches every other code unit.\<close>

definition isLineTerminator :: "jschar \<Rightarrow> bool" where
  "isLineTerminator c = (c = 10 \<or> c = 13 \<or> c = 8232 \<or> c = 8233)"

text \<open>
  \<^verbatim>\<open>\s\<close>, which is also the set that \<^verbatim>\<open>trim\<close> removes: TAB, LF, VT, FF, CR, space, U+00A0,
  U+1680, U+2000 to U+200A, U+2028, U+2029, U+202F, U+205F, U+3000 and U+FEFF.
\<close>

definition isSpace :: "jschar \<Rightarrow> bool" where
  "isSpace c = ((9 \<le> c \<and> c \<le> 13) \<or> c = 32 \<or> c = 160 \<or> c = 5760
     \<or> (8192 \<le> c \<and> c \<le> 8202) \<or> c = 8232 \<or> c = 8233 \<or> c = 8239 \<or> c = 8287
     \<or> c = 12288 \<or> c = 65279)"

text \<open>
  Case folding of the \<^verbatim>\<open>i\<close> flag. Without the \<^verbatim>\<open>u\<close> flag a code unit above 127 never
  folds onto an ASCII letter, so on the ASCII letters of the program's patterns the
  comparison is the one below, and every other code unit only matches itself.
\<close>

definition asciiLower :: "jschar \<Rightarrow> jschar" where
  "asciiLower c = (if isUpper c then c + 32 else c)"

definition eqCI :: "jschar \<Rightarrow> jschar \<Rightarrow> bool" where
  "eqCI a c = (asciiLower a = asciiLower c)"

text \<open>
  \<^verbatim>\<open>String.prototype.toLowerCase\<close>. The string is read as code points (a surrogate pair
  is one code point, a lone surrogate stands for itself), every code point is replaced by
  its lower-case mapping, and the result is written back as code units. The mappings are
  the locale-independent ones of the Unicode Character Database: the simple lower-case
  mappings; U+0130, which becomes U+0069 U+0307; and the capital sigma U+03A3, which
  becomes the final sigma U+03C2 when a cased letter comes before it and no cased letter
  comes after it, the case-ignorable code points next to it being skipped on both sides,
  and U+03C3 otherwise.

  The tables are those of Unicode 14.0, as ranges in increasing order. An entry
  \<open>(lo, hi, step, lo')\<close> of \<open>lowerTable\<close> maps the code points \<open>lo\<close>, \<open>lo + step\<close>, ... up to
  \<open>hi\<close> to \<open>lo'\<close>, \<open>lo' + step\<close>, ...; a code point of no entry is its own lower case.
  The test for case-ignorable comes before the one for cased, so \<open>casedTable\<close> lists the
  cased code points that are not case-ignorable.
\<close>

definition isHighSurrogate :: "jschar \<Rightarrow> bool" where
  "isHighSurrogate c = (55296 \<le> c \<and> c \<le> 56319)"

definition isLowSurrogate :: "jschar \<Rightarrow> bool" where
  "isLowSurrogate c = (56320 \<le> c \<and> c \<le> 57343)"

fun toCodePoints :: "jsstring \<Rightarrow> nat list" where
  "toCodePoints [] = []"
| "toCodePoints [c] = [c]"
| "toCodePoints (c # d # s) =
     (if isHighSurrogate c \<and> isLowSurrogate d
      then (65536 + (c - 55296) * 1024 + (d - 56320)) # toCodePoints s
      else c # toCodePoints (d # s))"

definition fromCodePoint :: "nat \<Rightarrow> jsstring" where
  "fromCodePoint cp =
     (if cp < 65536 then [cp]
      else [55296 + (cp - 65536) div 1024, 56320 + (cp - 65536) mod 1024])"

type_synonym caseRange = "nat \<times> nat \<times> nat \<times> nat"

fun lookupLower :: "caseRange list \<Rightarrow> nat \<Rightarrow> nat" where
  "lookupLower [] cp = cp"
| "lookupLower ((lo, hi, step, lo') # ranges) cp =
     (if cp < lo then cp
      else if cp \<le> hi then (if (cp - lo) mod step = 0 then lo' + (cp - lo) else cp)
      else lookupLower ranges cp)"

fun inRanges :: "(nat \<times> nat) list \<Rightarrow> nat \<Rightarrow> bool" where
  "inRanges [] cp = False"
| "inRanges ((lo, hi) # ranges) cp =
     (if cp < lo then False else if cp \<le> hi then True else inRanges ranges cp)"

definition lowerTable :: "caseRange list" where
  "lowerTable =
    [
      (65, 90, 1, 97), (192, 214, 1, 224), (216, 222, 1, 248), (256, 302, 2, 257),
      (306, 310, 2, 307), (313, 327, 2, 314), (330, 374, 2, 331), (376, 376, 1, 255),
      (377, 381, 2, 378), (385, 385, 1, 595), (386, 388, 2, 387), (390, 390, 1, 596),
      (391, 391, 1, 392), (393, 394, 1, 598), (395, 395, 1, 396), (398, 398, 1, 477),
      (399, 399, 1, 601), (400, 400, 1, 603), (401, 401, 1, 402), (403, 403, 1, 608),
      (404, 404, 1, 611), (406, 406, 1, 617), (407, 407, 1, 616), (408, 408, 1, 409),
      (412, 412, 1, 623), (413, 413, 1, 626), (415, 415, 1, 629), (416, 420, 2, 417),
      (422, 422, 1, 640), (423, 423, 1, 424), (425, 425, 1, 643), (428, 428, 1, 429),
      (430, 430, 1, 648), (431, 431, 1, 432), (433, 434, 1, 650), (435, 437, 2, 436),
      (439, 439, 1, 658), (440, 440, 1, 441), (444, 444, 1, 445), (452, 452, 1, 454),
      (453, 453, 1, 454), (455, 455, 1, 457), (456, 456, 1, 457), (458, 458, 1, 460),
      (459, 475, 2, 460), (478, 494, 2, 479), (497, 497, 1, 499), (498, 500, 2, 499),
      (502, 502, 1, 405), (503, 503, 1, 447), (504, 542, 2, 505), (544, 544, 1, 414),
      (546, 562, 2, 547), (570, 570, 1, 11365), (571, 571, 1, 572), (573, 573, 1, 410),
      (574, 574, 1, 11366), (577, 577, 1, 578), (579, 579, 1, 384), (580, 580, 1, 649),
      (581, 581, 1, 652), (582, 590, 2, 583), (880, 882, 2, 881), (886, 886, 1, 887),
      (895, 895, 1, 1011), (902, 902, 1, 940), (904, 906, 1, 941), (908, 908, 1, 972),
      (910, 911, 1, 973), (913, 929, 1, 945), (931, 939, 1, 963), (975, 975, 1, 983),
      (984, 1006, 2, 985), (1012, 1012, 1, 952), (1015, 1015, 1, 1016), (1017, 1017, 1, 1010),
      (1018, 1018, 1, 1019), (1021, 1023, 1, 891), (1024, 1039, 1, 1104),
      (1040, 1071, 1, 1072), (1120, 1152, 2, 1121), (1162, 1214, 2, 1163),
      (1216, 1216, 1, 1231), (1217, 1229, 2, 1218), (1232, 1326, 2, 1233),
      (1329, 1366, 1, 1377), (4256, 4293, 1, 11520), (4295, 4295, 1, 11559),
      (4301, 4301, 1, 11565), (5024, 5103, 1, 43888), (5104, 5109, 1, 5112),
      (7312, 7354, 1, 4304), (7357, 7359, 1, 4349), (7680, 7828, 2, 7681),
      (7838, 7838, 1, 223), (7840, 7934, 2, 7841), (7944, 7951, 1, 7936),
      (7960, 7965, 1, 7952), (7976, 7983, 1, 7968), (7992, 7999, 1, 7984),
      (8008, 8013, 1, 8000), (8025, 8031, 2, 8017), (8040, 8047, 1, 8032),
      (8072, 8079, 1, 8064), (8088, 8095, 1, 8080), (8104, 8111, 1, 8096),
      (8120, 8121, 1, 8112), (8122, 8123, 1, 8048), (8124, 8124, 1, 8115),
      (8136, 8139, 1, 8050), (8140, 8140, 1, 8131), (8152, 8153, 1, 8144),
      (8154, 8155, 1, 8054), (8168, 8169, 1, 8160), (8170, 8171, 1, 8058),
      (8172, 8172, 1, 8165), (8184, 8185, 1, 8056), (8186, 8187, 1, 8060),
      (8188, 8188, 1, 8179), (8486, 8486, 1, 969), (8490, 8490, 1, 107), (8491, 8491, 1, 229),
      (8498, 8498, 1, 8526), (8544, 8559, 1, 8560), (8579, 8579, 1, 8580),
      (9398, 9423, 1, 9424), (11264, 11311, 1, 11312), (11360, 11360, 1, 11361),
      (11362, 11362, 1, 619), (11363, 11363, 1, 7549), (11364, 11364, 1, 637),
      (11367, 11371, 2, 11368), (11373, 11373, 1, 593), (11374, 11374, 1, 625),
      (11375, 11375, 1, 592), (11376, 11376, 1, 594), (11378, 11378, 1, 11379),
      (11381, 11381, 1, 11382), (11390, 11391, 1, 575), (11392, 11490, 2, 11393),
      (11499, 11501, 2, 11500), (11506, 11506, 1, 11507), (42560, 42604, 2, 42561),
      (42624, 42650, 2, 42625), (42786, 42798, 2, 42787), (42802, 42862, 2, 42803),
      (42873, 42875, 2, 42874), (42877, 42877, 1, 7545), (42878, 42886, 2, 42879),
      (42891, 42891, 1, 42892), (42893, 42893, 1, 613), (42896, 42898, 2, 42897),
      (42902, 42920, 2, 42903), (42922, 42922, 1, 614), (42923, 42923, 1, 604),
      (42924, 42924, 1, 609), (42925, 42925, 1, 620), (42926, 42926, 1, 618),
      (42928, 42928, 1, 670), (42929, 42929, 1, 647), (42930, 42930, 1, 669),
      (42931, 42931, 1, 43859), (42932, 42946, 2, 42933), (42948, 42948, 1, 42900),
      (42949, 42949, 1, 642), (42950, 42950, 1, 7566), (42951, 42953, 2, 42952),
      (42960, 42960, 1, 42961), (42966, 42968, 2, 42967), (42997, 42997, 1, 42998),
      (65313, 65338, 1, 65345), (66560, 66599, 1, 66600), (66736, 66771, 1, 66776),
      (66928, 66938, 1, 66967), (66940, 66954, 1, 66979), (66956, 66962, 1, 66995),
      (66964, 66965, 1, 67003), (68736, 68786, 1, 68800), (71840, 71871, 1, 71872),
      (93760, 93791, 1, 93792), (125184, 125217, 1, 125218) ]"

definition casedTable :: "(nat \<times> nat) list" where
  "casedTable =
    [
      (65, 90), (97, 122), (170, 170), (181, 181), (186, 186), (192, 214), (216, 246),
      (248, 442), (444, 447), (452, 659), (661, 687), (880, 883), (886, 887), (891, 893),
      (895, 895), (902, 902), (904, 906), (908, 908), (910, 929), (931, 1013), (1015, 1153),
      (1162, 1327), (1329, 1366), (1376, 1416), (4256, 4293), (4295, 4295), (4301, 4301),
      (4304, 4346), (4349, 4351), (5024, 5109), (5112, 5117), (7296, 7304), (7312, 7354),
      (7357, 7359), (7424, 7467), (7531, 7543), (7545, 7578), (7680, 7957), (7960, 7965),
      (7968, 8005), (8008, 8013), (8016, 8023), (8025, 8025), (8027, 8027), (8029, 8029),
      (8031, 8061), (8064, 8116), (8118, 8124), (8126, 8126), (8130, 8132), (8134, 8140),
      (8144, 8147), (8150, 8155), (8160, 8172), (8178, 8180), (8182, 8188), (8450, 8450),
      (8455, 8455), (8458, 8467), (8469, 8469), (8473, 8477), (8484, 8484), (8486, 8486),
      (8488, 8488), (8490, 8493), (8495, 8500), (8505, 8505), (8508, 8511), (8517, 8521),
      (8526, 8526), (8544, 8575), (8579, 8580), (9398, 9449), (11264, 11387), (11390, 11492),
      (11499, 11502), (11506, 11507), (11520, 11557), (11559, 11559), (11565, 11565),
      (42560, 42605), (42624, 42651), (42786, 42863), (42865, 42887), (42891, 42894),
      (42896, 42954), (42960, 42961), (42963, 42963), (42965, 42969), (42997, 42998),
      (43002, 43002), (43824, 43866), (43872, 43880), (43888, 43967), (64256, 64262),
      (64275, 64279), (65313, 65338), (65345, 65370), (66560, 66639), (66736, 66771),
      (66776, 66811), (66928, 66938), (66940, 66954), (66956, 66962), (66964, 66965),
      (66967, 66977), (66979, 66993), (66995, 67001), (67003, 67004), (68736, 68786),
      (68800, 68850), (71840, 71903), (93760, 93823), (119808, 119892), (119894, 119964),
      (119966, 119967), (119970, 119970), (119973, 119974), (119977, 119980),
      (119982, 119993), (119995, 119995), (119997, 120003), (120005, 120069),
      (120071, 120074), (120077, 120084), (120086, 120092), (120094, 120121),
      (120123, 120126), (120128, 120132), (120134, 120134), (120138, 120144),
      (120146, 120485), (120488, 120512), (120514, 120538), (120540, 120570),
      (120572, 120596), (120598, 120628), (120630, 120654), (120656, 120686),
      (120688, 120712), (120714, 120744), (120746, 120770), (120772, 120779),
      (122624, 122633), (122635, 122654), (125184, 125251), (127280, 127305),
      (127312, 127337), (127344, 127369) ]"

definition caseIgnorableTable :: "(nat \<times> nat) list" where
  "caseIgnorableTable =
    [
      (39, 39), (46, 46), (58, 58), (94, 94), (96, 96), (168, 168), (173, 173), (175, 175),
      (180, 180), (183, 184), (688, 879), (884, 885), (890, 890), (900, 901), (903, 903),
      (1155, 1161), (1369, 1369), (1375, 1375), (1425, 1469), (1471, 1471), (1473, 1474),
      (1476, 1477), (1479, 1479), (1524, 1524), (1536, 1541), (1552, 1562), (1564, 1564),
      (1600, 1600), (1611, 1631), (1648, 1648), (1750, 1757), (1759, 1768), (1770, 1773),
      (1807, 1807), (1809, 1809), (1840, 1866), (1958, 1968), (2027, 2037), (2042, 2042),
      (2045, 2045), (2070, 2093), (2137, 2139), (2184, 2184), (2192, 2193), (2200, 2207),
      (2249, 2306), (2362, 2362), (2364, 2364), (2369, 2376), (2381, 2381), (2385, 2391),
      (2402, 2403), (2417, 2417), (2433, 2433), (2492, 2492), (2497, 2500), (2509, 2509),
      (2530, 2531), (2558, 2558), (2561, 2562), (2620, 2620), (2625, 2626), (2631, 2632),
      (2635, 2637), (2641, 2641), (2672, 2673), (2677, 2677), (2689, 2690), (2748, 2748),
      (2753, 2757), (2759, 2760), (2765, 2765), (2786, 2787), (2810, 2815), (2817, 2817),
      (2876, 2876), (2879, 2879), (2881, 2884), (2893, 2893), (2901, 2902), (2914, 2915),
      (2946, 2946), (3008, 3008), (3021, 3021), (3072, 3072), (3076, 3076), (3132, 3132),
      (3134, 3136), (3142, 3144), (3146, 3149), (3157, 3158), (3170, 3171), (3201, 3201),
      (3260, 3260), (3263, 3263), (3270, 3270), (3276, 3277), (3298, 3299), (3328, 3329),
      (3387, 3388), (3393, 3396), (3405, 3405), (3426, 3427), (3457, 3457), (3530, 3530),
      (3538, 3540), (3542, 3542), (3633, 3633), (3636, 3642), (3654, 3662), (3761, 3761),
      (3764, 3772), (3782, 3782), (3784, 3789), (3864, 3865), (3893, 3893), (3895, 3895),
      (3897, 3897), (3953, 3966), (3968, 3972), (3974, 3975), (3981, 3991), (3993, 4028),
      (4038, 4038), (4141, 4144), (4146, 4151), (4153, 4154), (4157, 4158), (4184, 4185),
      (4190, 4192), (4209, 4212), (4226, 4226), (4229, 4230), (4237, 4237), (4253, 4253),
      (4348, 4348), (4957, 4959), (5906, 5908), (5938, 5939), (5970, 5971), (6002, 6003),
      (6068, 6069), (6071, 6077), (6086, 6086), (6089, 6099), (6103, 6103), (6109, 6109),
      (6155, 6159), (6211, 6211), (6277, 6278), (6313, 6313), (6432, 6434), (6439, 6440),
      (6450, 6450), (6457, 6459), (6679, 6680), (6683, 6683), (6742, 6742), (6744, 6750),
      (6752, 6752), (6754, 6754), (6757, 6764), (6771, 6780), (6783, 6783), (6823, 6823),
      (6832, 6862), (6912, 6915), (6964, 6964), (6966, 6970), (6972, 6972), (6978, 6978),
      (7019, 7027), (7040, 7041), (7074, 7077), (7080, 7081), (7083, 7085), (7142, 7142),
      (7144, 7145), (7149, 7149), (7151, 7153), (7212, 7219), (7222, 7223), (7288, 7293),
      (7376, 7378), (7380, 7392), (7394, 7400), (7405, 7405), (7412, 7412), (7416, 7417),
      (7468, 7530), (7544, 7544), (7579, 7679), (8125, 8125), (8127, 8129), (8141, 8143),
      (8157, 8159), (8173, 8175), (8189, 8190), (8203, 8207), (8216, 8217), (8228, 8228),
      (8231, 8231), (8234, 8238), (8288, 8292), (8294, 8303), (8305, 8305), (8319, 8319),
      (8336, 8348), (8400, 8432), (11388, 11389), (11503, 11505), (11631, 11631),
      (11647, 11647), (11744, 11775), (11823, 11823), (12293, 12293), (12330, 12333),
      (12337, 12341), (12347, 12347), (12441, 12446), (12540, 12542), (40981, 40981),
      (42232, 42237), (42508, 42508), (42607, 42610), (42612, 42621), (42623, 42623),
      (42652, 42655), (42736, 42737), (42752, 42785), (42864, 42864), (42888, 42890),
      (42994, 42996), (43000, 43001), (43010, 43010), (43014, 43014), (43019, 43019),
      (43045, 43046), (43052, 43052), (43204, 43205), (43232, 43249), (43263, 43263),
      (43302, 43309), (43335, 43345), (43392, 43394), (43443, 43443), (43446, 43449),
      (43452, 43453), (43471, 43471), (43493, 43494), (43561, 43566), (43569, 43570),
      (43573, 43574), (43587, 43587), (43596, 43596), (43632, 43632), (43644, 43644),
      (43696, 43696), (43698, 43700), (43703, 43704), (43710, 43711), (43713, 43713),
      (43741, 43741), (43756, 43757), (43763, 43764), (43766, 43766), (43867, 43871),
      (43881, 43883), (44005, 44005), (44008, 44008), (44013, 44013), (64286, 64286),
      (64434, 64450), (65024, 65039), (65043, 65043), (65056, 65071), (65106, 65106),
      (65109, 65109), (65279, 65279), (65287, 65287), (65294, 65294), (65306, 65306),
      (65342, 65342), (65344, 65344), (65392, 65392), (65438, 65439), (65507, 65507),
      (65529, 65531), (66045, 66045), (66272, 66272), (66422, 66426), (67456, 67461),
      (67463, 67504), (67506, 67514), (68097, 68099), (68101, 68102), (68108, 68111),
      (68152, 68154), (68159, 68159), (68325, 68326), (68900, 68903), (69291, 69292),
      (69446, 69456), (69506, 69509), (69633, 69633), (69688, 69702), (69744, 69744),
      (69747, 69748), (69759, 69761), (69811, 69814), (69817, 69818), (69821, 69821),
      (69826, 69826), (69837, 69837), (69888, 69890), (69927, 69931), (69933, 69940),
      (70003, 70003), (70016, 70017), (70070, 70078), (70089, 70092), (70095, 70095),
      (70191, 70193), (70196, 70196), (70198, 70199), (70206, 70206), (70367, 70367),
      (70371, 70378), (70400, 70401), (70459, 70460), (70464, 70464), (70502, 70508),
      (70512, 70516), (70712, 70719), (70722, 70724), (70726, 70726), (70750, 70750),
      (70835, 70840), (70842, 70842), (70847, 70848), (70850, 70851), (71090, 71093),
      (71100, 71101), (71103, 71104), (71132, 71133), (71219, 71226), (71229, 71229),
      (71231, 71232), (71339, 71339), (71341, 71341), (71344, 71349), (71351, 71351),
      (71453, 71455), (71458, 71461), (71463, 71467), (71727, 71735), (71737, 71738),
      (71995, 71996), (71998, 71998), (72003, 72003), (72148, 72151), (72154, 72155),
      (72160, 72160), (72193, 72202), (72243, 72248), (72251, 72254), (72263, 72263),
      (72273, 72278), (72281, 72283), (72330, 72342), (72344, 72345), (72752, 72758),
      (72760, 72765), (72767, 72767), (72850, 72871), (72874, 72880), (72882, 72883),
      (72885, 72886), (73009, 73014), (73018, 73018), (73020, 73021), (73023, 73029),
      (73031, 73031), (73104, 73105), (73109, 73109), (73111, 73111), (73459, 73460),
      (78896, 78904), (92912, 92916), (92976, 92982), (92992, 92995), (94031, 94031),
      (94095, 94111), (94176, 94177), (94179, 94180), (110576, 110579), (110581, 110587),
      (110589, 110590), (113821, 113822), (113824, 113827), (118528, 118573),
      (118576, 118598), (119143, 119145), (119155, 119170), (119173, 119179),
      (119210, 119213), (119362, 119364), (121344, 121398), (121403, 121452),
      (121461, 121461), (121476, 121476), (121499, 121503), (121505, 121519),
      (122880, 122886), (122888, 122904), (122907, 122913), (122915, 122916),
      (122918, 122922), (123184, 123197), (123566, 123566), (123628, 123631),
      (125136, 125142), (125252, 125259), (127995, 127999), (917505, 917505),
      (917536, 917631), (917760, 917999) ]"

text \<open>
  \<open>nextIsCased cps\<close>: the first code point of \<open>cps\<close> that is not case-ignorable exists and
  is cased. It is asked of the code points after the sigma, and of those before it, the
  nearest first.
\<close>

fun nextIsCased :: "nat list \<Rightarrow> bool" where
  "nextIsCased [] = False"
| "nextIsCased (cp # cps) =
     (if inRanges caseIgnorableTable cp then nextIsCased cps else inRanges casedTable cp)"

fun lowerLoop :: "nat list \<Rightarrow> nat list \<Rightarrow> nat list" where
  "lowerLoop seen [] = []"
| "lowerLoop seen (cp # cps) =
     (if cp = 304 then [105, 775]
      else if cp = 931 then [if nextIsCased seen \<and> \<not> nextIsCased cps then 962 else 963]
      else [lookupLower lowerTable cp])
     @ lowerLoop (cp # seen) cps"

definition toLowerCase :: "jsstring \<Rightarrow> jsstring" where
  "toLowerCase s = concat (map fromCodePoint (lowerLoop [] (toCodePoints s)))"

definition trim :: "jsstring \<Rightarrow> jsstring" where
  "trim s = rev (dropWhile isSpace (rev (dropWhile isSpace s)))"

fun startsWith :: "jsstring \<Rightarrow> jsstring \<Rightarrow> bool" where
  "startsWith s [] = True"
| "startsWith [] (p # ps) = False"
| "startsWith (c # cs) (p # ps) = (c = p \<and> startsWith cs ps)"

fun includesStr :: "jsstring \<Rightarrow> jsstring \<Rightarrow> bool" where
  "includesStr [] pat = (pat = [])"
| "includesStr (c # cs) pat = (startsWith (c # cs) pat \<or> includesStr cs pat)"

text \<open>
  \<^verbatim>\<open>s.split(sep)\<close> for a non-empty separator string: \<open>cur\<close> holds, reversed, the piece
  read so far.
\<close>

fun splitLoop :: "jsstring \<Rightarrow> jsstring \<Rightarrow> jsstring \<Rightarrow> jsstring list" where
  "splitLoop sep cur [] = [rev cur]"
| "splitLoop sep cur (c # cs) =
     (if sep \<noteq> [] \<and> startsWith (c # cs) sep
      then rev cur # splitLoop sep [] (drop (length sep - 1) cs)
      else splitLoop sep (c # cur) cs)"

definition splitStr :: "jsstring \<Rightarrow> jsstring \<Rightarrow> jsstring list" where
  "splitStr s sep = splitLoop sep [] s"

text \<open>\<^verbatim>\<open>arr.join(' ')\<close>.\<close>

fun joinSp :: "jsstring list \<Rightarrow> jsstring" where
  "joinSp [] = []"
| "joinSp [x] = x"
| "joinSp (x # y # ys) = x @ 32 # joinSp (y # ys)"

section \<open>Regular expressions\<close>

text \<open>
  The patterns of the program are written in the abstract syntax \<open>rx\<close> and run by a
  backtracking matcher. \<open>rxm r p s\<close> matches \<open>r\<close> at the head of \<open>s\<close>, where \<open>p\<close> is the
  code unit before the current position (\<open>None\<close> at the start of the input), and returns
  every way of matching, as the state reached, in the order in which a backtracking
  engine tries them: the first element is the match the engine reports. A starred group
  is greedy and an iteration that consumes nothing is rejected, as in ECMAScript.
  \<open>Run n\<close> is the pattern \<^verbatim>\<open>(.)\1{n,}\<close>: a code unit other than a line terminator, followed
  by at least \<open>n\<close> copies of it.
\<close>

datatype rx =
    Eps
  | Cls "jschar \<Rightarrow> bool"
  | Cat rx rx
  | Alt rx rx
  | Star rx
  | Bol
  | Eol
  | WordB
  | Run nat

type_synonym rxstate = "jschar option \<times> jsstring"

function rxm :: "rx \<Rightarrow> jschar option \<Rightarrow> jsstring \<Rightarrow> rxstate list" where
  "rxm Eps p s = [(p, s)]"
| "rxm (Cls f) p s = (case s of [] \<Rightarrow> [] | c # cs \<Rightarrow> if f c then [(Some c, cs)] else [])"
| "rxm (Cat a b) p s = concat (map (\<lambda>st. rxm b (fst st) (snd st)) (rxm a p s))"
| "rxm (Alt a b) p s = rxm a p s @ rxm b p s"
| "rxm (Star a) p s =
     concat (map (\<lambda>st. if length (snd st) < length s then rxm (Star a) (fst st) (snd st) else [])
                 (rxm a p s)) @ [(p, s)]"
| "rxm Bol p s = (if p = None then [(p, s)] else [])"
| "rxm Eol p s = (if s = [] then [(p, s)] else [])"
| "rxm WordB p s =
     (if (case p of None \<Rightarrow> False | Some c \<Rightarrow> isWordChar c)
         \<noteq> (case s of [] \<Rightarrow> False | c # _ \<Rightarrow> isWordChar c)
      then [(p, s)] else [])"
| "rxm (Run n) p s =
     (case s of [] \<Rightarrow> []
      | c # cs \<Rightarrow>
          if isLineTerminator c then []
          else let k = length (takeWhile (\<lambda>x. x = c) cs)
               in if k < n then [] else map (\<lambda>j. (Some c, drop j cs)) (rev [n..<Suc k]))"
  by pat_completeness auto
termination
  by (relation "measures [\<lambda>(r, p, s). size r, \<lambda>(r, p, s). length s]") auto

text \<open>
  The same equations with the recursion of sequence and star written over the list of
  states reached so far; these are the equations used to run the matcher.
\<close>

declare rxm.simps [simp del]

definition rxmL :: "rx \<Rightarrow> rxstate list \<Rightarrow> rxstate list" where
  "rxmL r sts = concat (map (\<lambda>st. rxm r (fst st) (snd st)) sts)"

lemma rxmL_Nil [simp, code]: "rxmL r [] = []"
  by (simp add: rxmL_def)

lemma rxmL_Cons [simp, code]: "rxmL r (st # sts) = rxm r (fst st) (snd st) @ rxmL r sts"
  by (simp add: rxmL_def)

lemma concat_map_if:
  "concat (map (\<lambda>st. if P st then f st else []) xs) = concat (map f (filter P xs))"
  by (induction xs) auto

lemma rxm_Cat [simp, code]: "rxm (Cat a b) p s = rxmL b (rxm a p s)"
  by (simp add: rxmL_def rxm.simps(3))

lemma rxm_Star [simp, code]:
  "rxm (Star a) p s =
     rxmL (Star a) (filter (\<lambda>st. length (snd st) < length s) (rxm a p s)) @ [(p, s)]"
  by (subst rxm.simps(5)) (simp only: concat_map_if rxmL_def)

lemmas rxm_base [simp, code] = rxm.simps(1,2,4,6,7,8,9)

text \<open>Derived forms: \<^verbatim>\<open>r+\<close>, \<^verbatim>\<open>r?\<close>, \<^verbatim>\<open>r{n}\<close>, \<^verbatim>\<open>r{n,}\<close>, a literal, a literal under \<^verbatim>\<open>i\<close>.\<close>

definition PlusR :: "rx \<Rightarrow> rx" where
  "PlusR r = Cat r (Star r)"

definition OptR :: "rx \<Rightarrow> rx" where
  "OptR r = Alt r Eps"

fun RepN :: "nat \<Rightarrow> rx \<Rightarrow> rx" where
  "RepN 0 r = Eps"
| "RepN (Suc n) r = Cat r (RepN n r)"

fun RepMin :: "nat \<Rightarrow> rx \<Rightarrow> rx" where
  "RepMin 0 r = Star r"
| "RepMin (Suc n) r = Cat r (RepMin n r)"

lemma RepN_numeral [simp]: "RepN (numeral k) r = Cat r (RepN (pred_numeral k) r)"
  by (simp add: numeral_eq_Suc)

lemma RepMin_numeral [simp]: "RepMin (numeral k) r = Cat r (RepMin (pred_numeral k) r)"
  by (simp add: numeral_eq_Suc)

definition Chr :: "jschar \<Rightarrow> rx" where
  "Chr c = Cls (\<lambda>x. x = c)"

fun Lit :: "jsstring \<Rightarrow> rx" where
  "Lit [] = Eps"
| "Lit (c # cs) = Cat (Chr c) (Lit cs)"

fun LitCI :: "jsstring \<Rightarrow> rx" where
  "LitCI [] = Eps"
| "LitCI (c # cs) = Cat (Cls (eqCI c)) (LitCI cs)"

fun Alts :: "rx list \<Rightarrow> rx" where
  "Alts [] = Cls (\<lambda>x. False)"
| "Alts [r] = r"
| "Alts (r # rs) = Alt r (Alts rs)"

text \<open>\<^verbatim>\<open>re.test(s)\<close> with \<^verbatim>\<open>lastIndex = 0\<close>: is there a match starting anywhere in \<open>s\<close>.\<close>

fun rxSearch :: "rx \<Rightarrow> jschar option \<Rightarrow> jsstring \<Rightarrow> bool" where
  "rxSearch r p [] = (rxm r p [] \<noteq> [])"
| "rxSearch r p (c # cs) = (rxm r p (c # cs) \<noteq> [] \<or> rxSearch r (Some c) cs)"

definition rxTest :: "rx \<Rightarrow> jsstring \<Rightarrow> bool" where
  "rxTest r s = rxSearch r None s"

text \<open>
  \<^verbatim>\<open>for (const pattern of patterns) { if (pattern.test(text)) return true; }\<close>: the loop
  over a table of patterns, which returns at the first pattern that matches.
\<close>

fun testAny :: "rx list \<Rightarrow> jsstring \<Rightarrow> bool" where
  "testAny [] t = False"
| "testAny (pattern # patterns) t = (if rxTest pattern t then True else testAny patterns t)"

text \<open>
  \<^verbatim>\<open>s.replace(re, f)\<close> for a pattern with the \<^verbatim>\<open>g\<close> flag: left to right, every match is
  replaced by \<open>f\<close> of the matched text and the scan goes on after the match; after an
  empty match one code unit is copied.
\<close>

function rxReplace :: "rx \<Rightarrow> (jsstring \<Rightarrow> jsstring) \<Rightarrow> jschar option \<Rightarrow> jsstring \<Rightarrow> jsstring" where
  "rxReplace r f p s =
     (case rxm r p s of
        [] \<Rightarrow> (case s of [] \<Rightarrow> [] | c # cs \<Rightarrow> c # rxReplace r f (Some c) cs)
      | st # _ \<Rightarrow>
          if length (snd st) < length s
          then f (take (length s - length (snd st)) s) @ rxReplace r f (fst st) (snd st)
          else f [] @ (case s of [] \<Rightarrow> [] | c # cs \<Rightarrow> c # rxReplace r f (Some c) cs))"
  by pat_completeness auto
termination
  by (relation "measure (\<lambda>(r, f, p, s). length s)") auto

definition replaceAll :: "rx \<Rightarrow> (jsstring \<Rightarrow> jsstring) \<Rightarrow> jsstring \<Rightarrow> jsstring" where
  "replaceAll r f s = rxReplace r f None s"

text \<open>
  \<^verbatim>\<open>s.split(re)\<close>: at each position the pattern is tried there; a match that ends where
  the current piece starts is skipped, any other match closes the piece. The captures
  that \<^verbatim>\<open>split\<close> adds to the array are left out: the program reads the length of the
  array for a pattern without groups, and element 0 otherwise.
\<close>

function rxSplitLoop :: "rx \<Rightarrow> jsstring \<Rightarrow> jschar option \<Rightarrow> jsstring \<Rightarrow> jsstring list" where
  "rxSplitLoop r cur p [] = [rev cur]"
| "rxSplitLoop r cur p (c # cs) =
     (case rxm r p (c # cs) of
        [] \<Rightarrow> rxSplitLoop r (c # cur) (Some c) cs
      | st # _ \<Rightarrow>
          if length (snd st) < length (c # cs)
          then rev cur # rxSplitLoop r [] (fst st) (snd st)
          else if cur = [] then rxSplitLoop r [c] (Some c) cs
          else rev cur # rxSplitLoop r [c] (Some c) cs)"
  by pat_completeness auto
termination
  by (relation "measure (\<lambda>(r, cur, p, s). length s)") auto

definition rxSplit :: "rx \<Rightarrow> jsstring \<Rightarrow> jsstring list" where
  "rxSplit r s =
     (if s = [] then (if rxm r None [] \<noteq> [] then [] else [[]]) else rxSplitLoop r [] None s)"

text \<open>\<^verbatim>\<open>s.split(re)[0]\<close> for a pattern that matches no empty text.\<close>

definition rxSplitFirst :: "rx \<Rightarrow> jsstring \<Rightarrow> jsstring" where
  "rxSplitFirst r s = (case rxSplit r s of [] \<Rightarrow> [] | x # _ \<Rightarrow> x)"


fun Seqs :: "rx list \<Rightarrow> rx" where
  "Seqs [] = Eps"
| "Seqs [r] = r"
| "Seqs (r # rs) = Cat r (Seqs rs)"

abbreviation rxWs :: rx where
  "rxWs \<equiv> Cls isSpace"

abbreviation rxDigit :: rx where
  "rxDigit \<equiv> Cls isDigit"

section \<open>JavaScript numbers\<close>

text \<open>
  A Number is an IEEE 754 double. A finite double is modelled by the rational it denotes
  and every arithmetic operation is the exact operation followed by \<open>fl\<close>, the rounding
  to the nearest double (53 significant bits, ties to even, with the gradual underflow
  below \<open>2^-1022\<close>). A numeric literal of the source such as \<^verbatim>\<open>0.4\<close> denotes \<open>fl (4/10)\<close>.
  The sign of zero is not modelled.
\<close>

definition pow2 :: "int \<Rightarrow> rat" where
  "pow2 e = 2 powi e"

text \<open>\<open>expo x\<close> is the exponent \<open>e\<close> with \<open>2^e \<le> x < 2^(e+1)\<close>, for \<open>x > 0\<close>.\<close>

definition expo :: "rat \<Rightarrow> int" where
  "expo x = (if 1 \<le> x then bitlen \<lfloor>x\<rfloor> - 1 else - bitlen (\<lceil>1 / x\<rceil> - 1))"

definition roundHalfEven :: "rat \<Rightarrow> int" where
  "roundHalfEven y =
     (let f = \<lfloor>y\<rfloor>; d = y - of_int f
      in if d < 1 / 2 then f else if 1 / 2 < d then f + 1 else if even f then f else f + 1)"

definition fl :: "rat \<Rightarrow> rat" where
  "fl x =
     (if x = 0 then 0
      else let a = \<bar>x\<bar>; u = pow2 (max (expo a) (- 1022) - 52)
           in sgn x * of_int (roundHalfEven (a / u)) * u)"

subsection \<open>Properties of the rounding\<close>

lemma fl_1_10: "fl (1 / 10) = 3602879701896397 / 36028797018963968"
  by code_simp

lemma fl_4_10: "fl (4 / 10) = 3602879701896397 / 9007199254740992"
  by code_simp

lemma pow2_pos [simp]: "0 < pow2 e"
  by (simp add: pow2_def)

lemma pow2_add: "pow2 (a + b) = pow2 a * pow2 b"
  by (simp add: pow2_def power_int_add)

lemma pow2_mono: "a \<le> b \<Longrightarrow> pow2 a \<le> pow2 b"
  by (simp add: pow2_def power_int_increasing)

lemma pow2_strict_mono: "a < b \<Longrightarrow> pow2 a < pow2 b"
  by (simp add: pow2_def power_int_strict_increasing)

lemma pow2_nat: "0 \<le> e \<Longrightarrow> pow2 e = 2 ^ nat e"
  by (simp add: pow2_def power_int_def)

lemma pow2_neg: "e \<le> 0 \<Longrightarrow> pow2 e = 1 / 2 ^ nat (- e)"
  by (cases "e = 0") (simp_all add: pow2_def power_int_def inverse_eq_divide power_one_over)

lemma of_int_le_pow2:
  assumes "(a::int) \<le> 2 ^ k"
  shows "(of_int a :: rat) \<le> 2 ^ k"
proof -
  have "(of_int a :: rat) \<le> of_int (2 ^ k)" using assms by (simp only: of_int_le_iff)
  then show ?thesis by simp
qed

lemma expo_bounds:
  assumes "0 < x"
  shows "pow2 (expo x) \<le> x \<and> x < pow2 (expo x + 1)"
proof (cases "1 \<le> x")
  case True
  define n where "n = \<lfloor>x\<rfloor>"
  have n1: "1 \<le> n" using True by (simp add: n_def le_floor_iff)
  have b1: "1 \<le> bitlen n" using n1 by (simp add: bitlen_alt_def)
  have bb: "2 ^ nat (bitlen n - 1) \<le> n" "n < 2 ^ nat (bitlen n)"
    using bitlen_bounds[of n] n1 by auto
  have e: "expo x = bitlen n - 1" using True by (simp add: expo_def n_def)
  have "pow2 (expo x) = of_int (2 ^ nat (bitlen n - 1))"
    using b1 by (simp add: e pow2_nat)
  also have "\<dots> \<le> of_int n" using bb(1) by simp
  also have "\<dots> \<le> x" by (simp add: n_def)
  finally have lo: "pow2 (expo x) \<le> x" .
  have "n + 1 \<le> 2 ^ nat (bitlen n)" using bb(2) by simp
  then have "of_int (n + 1) \<le> (2 :: rat) ^ nat (bitlen n)" by (rule of_int_le_pow2)
  moreover have "x < of_int (n + 1)" using floor_correct[of x] by (simp add: n_def)
  ultimately have "x < 2 ^ nat (bitlen n)" by linarith
  moreover have "pow2 (expo x + 1) = 2 ^ nat (bitlen n)"
    using b1 by (simp add: e pow2_nat)
  ultimately show ?thesis using lo by simp
next
  case False
  define y where "y = 1 / x"
  have y1: "1 < y" using False assms by (simp add: y_def)
  define m where "m = \<lceil>y\<rceil> - 1"
  have m1: "1 \<le> m" using y1 by (simp add: m_def less_ceiling_iff)
  have b1: "1 \<le> bitlen m" using m1 by (simp add: bitlen_alt_def)
  have bb: "2 ^ nat (bitlen m - 1) \<le> m" "m < 2 ^ nat (bitlen m)"
    using bitlen_bounds[of m] m1 by auto
  have e: "expo x = - bitlen m" using False by (simp add: expo_def m_def y_def)
  have ym: "of_int m < y" "y \<le> of_int (m + 1)"
    using ceiling_correct[of y] by (simp_all add: m_def)
  have "m + 1 \<le> 2 ^ nat (bitlen m)" using bb(2) by simp
  then have "of_int (m + 1) \<le> (2 :: rat) ^ nat (bitlen m)" by (rule of_int_le_pow2)
  with ym(2) have yu: "y \<le> 2 ^ nat (bitlen m)" by linarith
  have "(2 :: rat) ^ nat (bitlen m - 1) \<le> of_int m" using bb(1) by simp
  with ym(1) have yl: "2 ^ nat (bitlen m - 1) < y" by linarith
  have lo: "pow2 (expo x) \<le> x"
  proof -
    have "pow2 (expo x) = 1 / 2 ^ nat (bitlen m)" using b1 by (simp add: e pow2_neg)
    also have "\<dots> \<le> 1 / y" using yu y1 by (simp add: frac_le)
    also have "\<dots> = x" by (simp add: y_def)
    finally show ?thesis .
  qed
  have hi: "x < pow2 (expo x + 1)"
  proof -
    have "x = 1 / y" by (simp add: y_def)
    also have "\<dots> < 1 / 2 ^ nat (bitlen m - 1)" using yl by (simp add: frac_less2)
    also have "\<dots> = pow2 (expo x + 1)" using b1 by (simp add: e pow2_neg)
    finally show ?thesis .
  qed
  show ?thesis using lo hi by simp
qed

lemma expo_unique:
  assumes "0 < x" "pow2 e \<le> x" "x < pow2 (e + 1)"
  shows "expo x = e"
proof (rule ccontr)
  assume ne: "expo x \<noteq> e"
  from expo_bounds[OF assms(1)] have b: "pow2 (expo x) \<le> x" "x < pow2 (expo x + 1)" by auto
  show False
  proof (cases "expo x < e")
    case True
    then have "pow2 (expo x + 1) \<le> pow2 e" by (intro pow2_mono) simp
    with b(2) assms(2) show False by simp
  next
    case False
    with ne have "e + 1 \<le> expo x" by simp
    then have "pow2 (e + 1) \<le> pow2 (expo x)" by (rule pow2_mono)
    with b(1) assms(3) show False by simp
  qed
qed


lemma roundHalfEven_of_int [simp]: "roundHalfEven (of_int k) = k"
  by (simp add: roundHalfEven_def)

lemma roundHalfEven_ge_floor: "\<lfloor>y\<rfloor> \<le> roundHalfEven y"
  by (simp add: roundHalfEven_def Let_def)

lemma roundHalfEven_upper: "of_int (roundHalfEven y) \<le> y + 1 / 2"
proof -
  define f where "f = \<lfloor>y\<rfloor>"
  have a: "of_int f \<le> y" by (simp add: f_def)
  have "roundHalfEven y =
      (if y - of_int f < 1 / 2 then f else if 1 / 2 < y - of_int f then f + 1
       else if even f then f else f + 1)"
    by (simp add: roundHalfEven_def Let_def f_def)
  then show ?thesis using a by (auto split: if_splits)
qed

lemma expo_ge:
  assumes "0 < x" "pow2 e \<le> x"
  shows "e \<le> expo x"
proof (rule ccontr)
  assume "\<not> e \<le> expo x"
  then have "expo x + 1 \<le> e" by simp
  then have "pow2 (expo x + 1) \<le> pow2 e" by (rule pow2_mono)
  with expo_bounds[OF assms(1)] assms(2) show False by simp
qed

lemma fl_pos_unfold:
  assumes "0 < x" "pow2 (- 1022) \<le> x"
  shows "fl x = of_int (roundHalfEven (x / pow2 (expo x - 52))) * pow2 (expo x - 52)"
proof -
  have "- 1022 \<le> expo x" using expo_ge[OF assms] .
  then have "max (expo x) (- 1022) = expo x" by simp
  then show ?thesis using assms(1) by (simp add: fl_def Let_def)
qed

lemma fl_upper:
  assumes "0 < x" "pow2 (- 1022) \<le> x"
  shows "fl x \<le> x + x / 2 ^ 53"
proof -
  define u where "u = pow2 (expo x - 52)"
  have u0: "0 < u" by (simp add: u_def)
  have "fl x = of_int (roundHalfEven (x / u)) * u"
    using fl_pos_unfold[OF assms] by (simp add: u_def)
  also have "\<dots> \<le> (x / u + 1 / 2) * u"
    using roundHalfEven_upper[of "x / u"] u0 by (simp only: mult_le_cancel_right_pos)
  also have "\<dots> = x + u / 2" using u0 by (simp add: field_simps)
  finally have a: "fl x \<le> x + u / 2" .
  have "u = pow2 (expo x + (- 52))" by (simp add: u_def)
  also have "\<dots> = pow2 (expo x) * pow2 (- 52)" by (rule pow2_add)
  also have "\<dots> \<le> x * pow2 (- 52)" using expo_bounds[OF assms(1)] by simp
  finally have "u \<le> x * pow2 (- 52)" .
  moreover have "pow2 (- 52) = 1 / 2 ^ 52" by (simp add: pow2_neg)
  ultimately have "u / 2 \<le> x / 2 ^ 53" by simp
  with a show ?thesis by linarith
qed

lemma fl_nonneg: "0 \<le> x \<Longrightarrow> 0 \<le> fl x"
proof -
  assume x: "0 \<le> x"
  show ?thesis
  proof (cases "x = 0")
    case True then show ?thesis by (simp add: fl_def)
  next
    case False
    define u where "u = pow2 (max (expo \<bar>x\<bar>) (- 1022) - 52)"
    have u0: "0 < u" by (simp add: u_def)
    have "0 \<le> x / u" using x u0 by simp
    then have "0 \<le> \<lfloor>x / u\<rfloor>" by simp
    then have "0 \<le> roundHalfEven (x / u)" using roundHalfEven_ge_floor[of "x / u"] by linarith
    then have "0 \<le> of_int (roundHalfEven (x / u)) * u" using u0 by simp
    moreover have "fl x = of_int (roundHalfEven (x / u)) * u"
      using False x by (simp add: fl_def Let_def u_def)
    ultimately show ?thesis by simp
  qed
qed

lemma fl_ge_int:
  assumes "0 \<le> k" "k \<le> 2 ^ 53" "of_int k \<le> x"
  shows "of_int k \<le> fl x"
proof (cases "k = 0")
  case True
  then show ?thesis using assms(3) fl_nonneg[of x] by simp
next
  case False
  then have k1: "1 \<le> k" using assms(1) by simp
  then have x1: "1 \<le> x" using assms(3) by (smt (verit) of_int_1_le_iff order_trans)
  then have x0: "0 < x" by simp
  have "pow2 0 \<le> x" using x1 by (simp add: pow2_def)
  then have e0: "0 \<le> expo x" using expo_ge[OF x0] by simp
  have sub: "pow2 (- 1022) \<le> x"
    using pow2_mono[of "- 1022" 0] \<open>pow2 0 \<le> x\<close> by simp
  define u where "u = pow2 (expo x - 52)"
  have u0: "0 < u" by (simp add: u_def)
  have flx: "fl x = of_int (roundHalfEven (x / u)) * u"
    using fl_pos_unfold[OF x0 sub] by (simp add: u_def)
  show ?thesis
  proof (cases "expo x \<le> 52")
    case True
    define j where "j = nat (52 - expo x)"
    have uj: "u = 1 / 2 ^ j" using True by (simp add: u_def j_def pow2_neg)
    have "of_int (k * 2 ^ j) = of_int k / u" by (simp add: uj)
    also have "\<dots> \<le> x / u" using assms(3) u0 by (simp add: divide_right_mono)
    finally have "k * 2 ^ j \<le> \<lfloor>x / u\<rfloor>" by (simp add: le_floor_iff)
    then have "k * 2 ^ j \<le> roundHalfEven (x / u)"
      using roundHalfEven_ge_floor[of "x / u"] by linarith
    then have "(of_int (k * 2 ^ j) :: rat) \<le> of_int (roundHalfEven (x / u))"
      by (simp only: of_int_le_iff)
    then have le: "of_int (k * 2 ^ j) * u \<le> of_int (roundHalfEven (x / u)) * u"
      using u0 by (simp only: mult_le_cancel_right_pos)
    have eq: "of_int (k * 2 ^ j) * u = of_int k" by (simp add: uj)
    from le show ?thesis unfolding flx eq .
  next
    case False
    then have e53: "53 \<le> expo x" by simp
    have "pow2 52 = pow2 (expo x) / u"
    proof -
      have "pow2 (expo x) = pow2 (52 + (expo x - 52))" by simp
      also have "\<dots> = pow2 52 * u" unfolding u_def by (rule pow2_add)
      finally show ?thesis using u0 by simp
    qed
    also have "\<dots> \<le> x / u" using expo_bounds[OF x0] u0 by (simp add: divide_right_mono)
    finally have "pow2 52 \<le> x / u" .
    moreover have "pow2 52 = of_int (2 ^ 52)" by (simp add: pow2_nat)
    ultimately have "(2 ^ 52 :: int) \<le> \<lfloor>x / u\<rfloor>" by (simp add: le_floor_iff)
    then have "(2 ^ 52 :: int) \<le> roundHalfEven (x / u)"
      using roundHalfEven_ge_floor[of "x / u"] by linarith
    then have "(of_int (2 ^ 52) :: rat) \<le> of_int (roundHalfEven (x / u))"
      by (simp only: of_int_le_iff)
    then have "of_int (2 ^ 52) * u \<le> fl x"
      using u0 flx by (simp only: mult_le_cancel_right_pos)
    moreover have "of_int (2 ^ 52) * u = pow2 (expo x)"
    proof -
      have "pow2 (expo x) = pow2 (52 + (expo x - 52))" by simp
      also have "\<dots> = pow2 52 * u" unfolding u_def by (rule pow2_add)
      finally show ?thesis by (simp add: pow2_nat)
    qed
    moreover have "pow2 53 \<le> pow2 (expo x)" using e53 by (rule pow2_mono)
    moreover have "pow2 53 = 2 ^ 53" by (simp add: pow2_nat)
    moreover have "(of_int k :: rat) \<le> 2 ^ 53" using assms(2) by (rule of_int_le_pow2)
    ultimately show ?thesis by linarith
  qed
qed


lemma count_above_fl:
  assumes n: "n < 2 ^ 50"
  shows "(of_nat c > fl (of_nat n * fl (4 / 10))) \<longleftrightarrow> 5 * c > 2 * n"
proof -
  define q :: rat where "q = 3602879701896397 / 9007199254740992"
  have q: "fl (4 / 10) = q" unfolding q_def by (rule fl_4_10)
  define x :: rat where "x = of_nat n * q"
  have nr: "(of_nat n :: rat) < 2 ^ 50"
    using n by (metis of_nat_less_iff of_nat_numeral of_nat_power)
  show ?thesis
  proof
    assume "of_nat c > fl (of_nat n * fl (4 / 10))"
    then have gt: "fl x < of_nat c" unfolding q x_def .
    show "5 * c > 2 * n"
    proof (rule ccontr)
      assume "\<not> 5 * c > 2 * n"
      then have le: "5 * c \<le> 2 * n" by simp
      then have "(of_nat (5 * c) :: rat) \<le> of_nat (2 * n)" by (simp only: of_nat_le_iff)
      then have "5 * (of_nat c :: rat) \<le> 2 * of_nat n" by simp
      then have cx: "of_int (int c) \<le> x" unfolding x_def q_def by simp
      have "c \<le> n" using le by simp
      then have "int c \<le> 2 ^ 50" using n by simp
      then have "int c \<le> 2 ^ 53" by simp
      from fl_ge_int[OF _ this cx] have "of_nat c \<le> fl x" by simp
      with gt show False by simp
    qed
  next
    assume gt: "5 * c > 2 * n"
    then have "2 * n + 1 \<le> 5 * c" by simp
    then have "(of_nat (2 * n + 1) :: rat) \<le> of_nat (5 * c)" by (simp only: of_nat_le_iff)
    then have c: "2 * (of_nat n :: rat) + 1 \<le> 5 * of_nat c" by simp
    have "fl x < of_nat c"
    proof (cases "n = 0")
      case True
      then have "fl x = 0" by (simp add: x_def fl_def)
      moreover have "0 < c" using gt True by simp
      ultimately show ?thesis by simp
    next
      case False
      then have n1: "(1 :: rat) \<le> of_nat n" by simp
      then have xq: "q \<le> x" unfolding x_def q_def by simp
      then have x0: "0 < x" unfolding q_def by simp
      have "pow2 (- 1022) \<le> pow2 (- 2)" by (rule pow2_mono) simp
      also have "pow2 (- 2) = 1 / 4" by (simp add: pow2_neg)
      also have "1 / 4 \<le> q" by (simp add: q_def)
      finally have sub: "pow2 (- 1022) \<le> x" using xq by simp
      have "fl x \<le> x + x / 2 ^ 53" using fl_upper[OF x0 sub] .
      also have "\<dots> < (2 * of_nat n + 1) / 5"
        using nr unfolding x_def q_def by simp
      also have "\<dots> \<le> of_nat c" using c by simp
      finally show ?thesis .
    qed
    then show "of_nat c > fl (of_nat n * fl (4 / 10))" unfolding q x_def .
  qed
qed

lemma fl_minus: "fl (- x) = - fl x"
  by (simp add: fl_def Let_def)

lemma fl_zero [simp]: "fl 0 = 0"
  by (simp add: fl_def)

lemma fl_of_int_pos:
  assumes "0 < k" "k \<le> 2 ^ 53"
  shows "fl (of_int k) = of_int k"
proof -
  define x :: rat where "x = of_int k"
  have x1: "1 \<le> x" using assms(1) by (simp add: x_def)
  then have x0: "0 < x" by simp
  have "pow2 0 \<le> x" using x1 by (simp add: pow2_def)
  then have e0: "0 \<le> expo x" using expo_ge[OF x0] by simp
  have sub: "pow2 (- 1022) \<le> x"
    using pow2_mono[of "- 1022" 0] \<open>pow2 0 \<le> x\<close> by simp
  have xle: "x \<le> pow2 53" unfolding x_def using of_int_le_pow2[OF assms(2)] by (simp add: pow2_nat)
  have e53: "expo x \<le> 53"
  proof (rule ccontr)
    assume "\<not> expo x \<le> 53"
    then have "pow2 54 \<le> pow2 (expo x)" by (intro pow2_mono) simp
    moreover have "pow2 53 < pow2 54" by (rule pow2_strict_mono) simp
    ultimately show False using expo_bounds[OF x0] xle by simp
  qed
  define u where "u = pow2 (expo x - 52)"
  have u0: "0 < u" by (simp add: u_def)
  have flx: "fl x = of_int (roundHalfEven (x / u)) * u"
    using fl_pos_unfold[OF x0 sub] by (simp add: u_def)
  have "\<exists>m. x / u = of_int m"
  proof (cases "expo x \<le> 52")
    case True
    define j where "j = nat (52 - expo x)"
    have uj: "u = 1 / 2 ^ j" using True by (simp add: u_def j_def pow2_neg)
    have "x / u = of_int (k * 2 ^ j)" by (simp add: uj x_def)
    then show ?thesis ..
  next
    case False
    then have e: "expo x = 53" using e53 by simp
    have u2: "u = 2" by (simp add: u_def e pow2_nat)
    have "pow2 53 \<le> x" using expo_bounds[OF x0] by (simp add: e)
    then have "x = pow2 53" using xle by simp
    then have "x = 2 ^ 53" by (simp add: pow2_nat)
    then have "x / u = of_int (2 ^ 52)" unfolding u2 by simp
    then show ?thesis ..
  qed
  then obtain m where m: "x / u = of_int m" ..
  have "fl x = of_int m * u" unfolding flx m by simp
  also have "\<dots> = x" using m u0 by (simp add: field_simps)
  finally show ?thesis by (simp add: x_def)
qed

lemma fl_of_int:
  assumes "\<bar>k\<bar> \<le> 2 ^ 53"
  shows "fl (of_int k) = of_int k"
proof (cases "0 < k")
  case True
  then show ?thesis using assms by (simp add: fl_of_int_pos)
next
  case False
  show ?thesis
  proof (cases "k = 0")
    case True
    then show ?thesis by simp
  next
    case False
    with \<open>\<not> 0 < k\<close> have "0 < - k" "- k \<le> 2 ^ 53" using assms by simp_all
    then have "fl (of_int (- k)) = of_int (- k)" by (rule fl_of_int_pos)
    then show ?thesis by (simp add: fl_minus)
  qed
qed

lemma fl_numeral [simp]: "(numeral n :: int) \<le> 2 ^ 53 \<Longrightarrow> fl (numeral n) = numeral n"
  using fl_of_int[of "numeral n"] by simp

lemma fl_one [simp]: "fl 1 = 1"
  using fl_of_int[of 1] by simp

lemma fl_halves: "fl (1 / 2) = 1 / 2" "fl (7 / 2) = 7 / 2" "fl (5 / 2) = 5 / 2"
  by code_simp+

section \<open>The comment classifier (class CommentFilter)\<close>

text \<open>
  A comment is an object built by the comment handler; the classifier reads its
  \<^verbatim>\<open>text\<close>, \<^verbatim>\<open>authorChannelId\<close> and \<^verbatim>\<open>replies\<close>. A property that may be \<^verbatim>\<open>undefined\<close> is an
  option. \<open>other\<close> stands for the fields the classifier never reads (id, author, likes,
  dates).
\<close>

datatype 'a comment =
  Comment (commentText: "jsstring option") (authorChannelId: "jsstring option")
    (replies: "'a comment list option") (other: 'a)

record CommentFilterOptions =
  enableFiltering :: "bool option"
  removeSpam :: "bool option"
  removeNoise :: "bool option"
  removeUnrelated :: "bool option"

text \<open>\<^verbatim>\<open>SPAM_PATTERNS\<close>, in the order of the source.\<close>

definition SPAM_PATTERNS :: "rx list" where
  "SPAM_PATTERNS =
    [ Seqs [WordB,
            Alts [LitCI (js ''bit.ly''), LitCI (js ''tinyurl.com''), LitCI (js ''goo.gl''),
                  LitCI (js ''short.link''), LitCI (js ''cutt.ly''), LitCI (js ''ow.ly''),
                  LitCI (js ''tiny.cc'')],
            WordB],
      Seqs [Alts [Seqs [LitCI (js ''check''), Star rxWs, LitCI (js ''out'')], LitCI (js ''visit''),
                  LitCI (js ''click''), LitCI (js ''watch''), LitCI (js ''see'')],
            PlusR rxWs,
            Alts [LitCI (js ''my''), LitCI (js ''our'')],
            PlusR rxWs,
            Alts [LitCI (js ''channel''), LitCI (js ''profile''), LitCI (js ''video''),
                  LitCI (js ''link'')]],
      RepMin 3
        (Seqs [LitCI (js ''http''), OptR (LitCI (js ''s'')), Lit (js ''://''),
               PlusR (Cls (\<lambda>c. \<not> isSpace c)),
               Star (Cls (\<lambda>c. \<not> isLineTerminator c))]) ]"

text \<open>
  \<^verbatim>\<open>NOISE_PATTERNS\<close>. The last pattern has the \<^verbatim>\<open>u\<close> flag and matches code points
  U+1F300 to U+1F9FF; in UTF-16 these are the surrogate pairs written out below.
\<close>

definition emojiCodePoint :: rx where
  "emojiCodePoint =
     Alts [Cat (Chr 55356) (Cls (\<lambda>c. 57088 \<le> c \<and> c \<le> 57343)),
           Cat (Chr 55357) (Cls (\<lambda>c. 56320 \<le> c \<and> c \<le> 57343)),
           Cat (Chr 55358) (Cls (\<lambda>c. 56320 \<le> c \<and> c \<le> 56831))]"

definition NOISE_PATTERNS :: "rx list" where
  "NOISE_PATTERNS =
    [ Seqs [Chr 60, PlusR (Cls (\<lambda>c. c \<noteq> 62)), Chr 62],
      Alts [Lit (js ''&lt;''), Lit (js ''&gt;''), Lit (js ''&amp;''), Lit (js ''&quot;''),
            Seqs [Lit (js ''&#''), PlusR rxDigit, Chr 59]],
      Run 5,
      RepMin 5 emojiCodePoint ]"

definition BOT_PATTERNS :: "rx list" where
  "BOT_PATTERNS =
    [ Seqs [LitCI (js ''who''), OptR (Alts [LitCI (js [CHR 0x27, CHR ''s'']), LitCI (js '' is'')]),
            PlusR rxWs,
            Alts [LitCI (js ''watching''), LitCI (js ''here''), LitCI (js ''listening'')],
            PlusR rxWs,
            OptR (Alts [LitCI (js ''in''), LitCI (js ''from'')]),
            Star rxWs,
            RepN 4 rxDigit],
      Seqs [Bol,
            Alts [LitCI (js ''first''), LitCI (js ''second''), LitCI (js ''third''),
                  Seqs [PlusR rxDigit,
                        Alts [LitCI (js ''st''), LitCI (js ''nd''), LitCI (js ''rd''),
                              LitCI (js ''th'')]]],
            OptR (Chr 33),
            Eol],
      Seqs [Bol,
            Alts [LitCI (js ''anyone''), LitCI (js ''who'')],
            PlusR rxWs,
            OptR (Seqs [LitCI (js ''else''), PlusR rxWs]),
            Alts [LitCI (js ''here''), LitCI (js ''watching''), LitCI (js ''listening'')]],
      Seqs [Bol,
            Alts [LitCI (js ''like''),
                  Seqs [LitCI (js ''thumb''), OptR (LitCI (js ''s'')), Star rxWs, LitCI (js ''up'')]],
            PlusR rxWs, LitCI (js ''if''), PlusR rxWs, LitCI (js ''you'')] ]"


text \<open>
  \<^verbatim>\<open>isRepeatedText\<close>. \<open>wordCounts\<close> is the \<^verbatim>\<open>Map\<close> of the source, as an association list
  in insertion order; \<open>countWord\<close> is one round of the loop that fills it.
\<close>

fun bump :: "jsstring \<Rightarrow> (jsstring \<times> nat) list \<Rightarrow> (jsstring \<times> nat) list" where
  "bump w [] = [(w, 1)]"
| "bump w ((k, n) # m) = (if k = w then (k, n + 1) # m else (k, n) # bump w m)"

definition countWord :: "(jsstring \<times> nat) list \<Rightarrow> jsstring \<Rightarrow> (jsstring \<times> nat) list" where
  "countWord m word = (if length word > 2 then bump word m else m)"

fun anyCountAbove :: "rat \<Rightarrow> nat list \<Rightarrow> bool" where
  "anyCountAbove limit [] = False"
| "anyCountAbove limit (count # counts) =
     (if of_nat count > limit then True else anyCountAbove limit counts)"

definition isRepeatedText :: "jsstring \<Rightarrow> bool" where
  "isRepeatedText t =
     (let words = rxSplit (PlusR rxWs) (toLowerCase t)
      in if length words < 5 then False
         else let wordCounts = foldl countWord [] words
              in anyCountAbove (fl (of_nat (length words) * fl (4 / 10))) (map snd wordCounts))"

text \<open>\<^verbatim>\<open>isGibberish\<close>.\<close>

definition legitimatePatterns :: "rx list" where
  "legitimatePatterns =
    [ LitCI (js ''github''),
      LitCI (js ''stackoverflow''),
      Seqs [LitCI (js ''http''), OptR (LitCI (js ''s'')), Lit (js ''://'')],
      Alts [LitCI (js ''error:''), LitCI (js ''warning:''), LitCI (js ''fatal:'')],
      Alts [LitCI (js ''npm''), LitCI (js ''yarn''), LitCI (js ''pip''), LitCI (js ''docker''),
            LitCI (js ''git'')] ]"

definition keyboardPatterns :: "rx list" where
  "keyboardPatterns =
    [ Seqs [Bol, PlusR (Alts [LitCI (js ''asdf''), LitCI (js ''qwer''), LitCI (js ''zxcv''),
                              LitCI (js ''hjkl''), LitCI (js ''yuio'')]), Eol],
      Seqs [Bol, PlusR (Alts [LitCI (js ''abcd''), LitCI (js ''efgh''), LitCI (js ''ijkl''),
                              LitCI (js ''mnop''), LitCI (js ''qrst''), LitCI (js ''uvwx'')]), Eol],
      Seqs [Bol, PlusR rxDigit, Eol] ]"

definition isConsonant :: "jschar \<Rightarrow> bool" where
  "isConsonant c = (asciiLower c \<in> set (js ''bcdfghjklmnpqrstvwxyz''))"

definition isGibberish :: "jsstring \<Rightarrow> bool" where
  "isGibberish t =
     (let cleanText =
            replaceAll (Cls (\<lambda>c. isSpace c \<or> c \<in> set (js ''.,!?;:'') \<or> c = 39 \<or> c = 34))
              (\<lambda>m. []) t
      in if length cleanText < 8 then False
         else if testAny legitimatePatterns t then False
         else if testAny keyboardPatterns cleanText then True
         else if rxTest (Seqs [Bol, PlusR (Cls (\<lambda>c. asciiLower c \<in> set (js ''asdfghjkl''))), Eol])
                   cleanText then True
         else rxTest (RepMin 8 (Cls isConsonant)) cleanText)"

text \<open>
  \<^verbatim>\<open>shouldFilterComment(comment, options, videoAuthorChannelId)\<close>. A string is truthy when
  it is defined and not empty, so \<open>isVideoAuthor\<close> is the guard
  \<^verbatim>\<open>videoAuthorChannelId && comment.authorChannelId === videoAuthorChannelId\<close>;
  \<^verbatim>\<open>comment.text || ''\<close> is the text, or the empty string.
  The calls of \<^verbatim>\<open>console.log\<close> are left out.
\<close>

definition isVideoAuthor :: "'a comment \<Rightarrow> jsstring option \<Rightarrow> bool" where
  "isVideoAuthor comment videoAuthorChannelId =
     (case videoAuthorChannelId of
        None \<Rightarrow> False
      | Some v \<Rightarrow> v \<noteq> [] \<and> authorChannelId comment = Some v)"

definition shouldFilterComment ::
  "'a comment \<Rightarrow> CommentFilterOptions \<Rightarrow> jsstring option \<Rightarrow> bool" where
  "shouldFilterComment comment options videoAuthorChannelId =
     (if enableFiltering options = Some False then False
      else if isVideoAuthor comment videoAuthorChannelId then False
      else let t = (case commentText comment of None \<Rightarrow> [] | Some x \<Rightarrow> x)
           in if removeSpam options \<noteq> Some False
                 \<and> (testAny SPAM_PATTERNS t \<or> isRepeatedText t)
              then True
              else if removeNoise options \<noteq> Some False
                 \<and> (testAny NOISE_PATTERNS t
                      \<or> length (trim t) = 0 \<or> isGibberish t)
              then True
              else if removeUnrelated options \<noteq> Some False
                 \<and> testAny BOT_PATTERNS t
              then True
              else False)"

text \<open>
  \<^verbatim>\<open>filterComments\<close> returns a new array of the kept comments, and assigns to the
  \<^verbatim>\<open>replies\<close> of every kept comment its filtered replies: the objects of the caller's
  array are updated in place. \<open>filterComments\<close> is the array returned and
  \<open>filterCommentsInput\<close> is the caller's array after the call.
\<close>

definition filterReplies ::
  "CommentFilterOptions \<Rightarrow> jsstring option \<Rightarrow> 'a comment \<Rightarrow> 'a comment" where
  "filterReplies options v comment =
     (case replies comment of
        None \<Rightarrow> comment
      | Some rs \<Rightarrow>
          Comment (commentText comment) (authorChannelId comment)
            (Some (filter (\<lambda>reply. \<not> shouldFilterComment reply options v) rs)) (other comment))"

definition filterComments ::
  "'a comment list \<Rightarrow> CommentFilterOptions \<Rightarrow> jsstring option \<Rightarrow> 'a comment list" where
  "filterComments comments options v =
     (if enableFiltering options = Some False then comments
      else map (filterReplies options v)
             (filter (\<lambda>comment. \<not> shouldFilterComment comment options v) comments))"

definition filterCommentsInput ::
  "'a comment list \<Rightarrow> CommentFilterOptions \<Rightarrow> jsstring option \<Rightarrow> 'a comment list" where
  "filterCommentsInput comments options v =
     (if enableFiltering options = Some False then comments
      else map (\<lambda>comment. if \<not> shouldFilterComment comment options v
                            then filterReplies options v comment else comment) comments)"

text \<open>
  \<^verbatim>\<open>getFilterStats\<close>. The field \<^verbatim>\<open>filterRate\<close>, a percentage printed from \<open>filtered\<close> and
  \<open>total\<close>, is left out.
\<close>

record FilterStats =
  total :: nat
  filtered :: nat
  kept :: nat

definition getFilterStats ::
  "'a comment list \<Rightarrow> CommentFilterOptions \<Rightarrow> jsstring option \<Rightarrow> FilterStats" where
  "getFilterStats comments options v =
     (let total = length comments;
          filtered = length (filter (\<lambda>c. shouldFilterComment c options v) comments)
      in \<lparr> total = total, filtered = filtered, kept = total - filtered \<rparr>)"


section \<open>The adaptive sampler (processTranscript)\<close>

text \<open>
  \<^verbatim>\<open>Array.prototype.slice(start, end)\<close> on integer arguments: a negative index counts from
  the end of the array, both indices are clamped to the array, and an \<^verbatim>\<open>end\<close> left out is
  the length. Negative zero is zero, so \<^verbatim>\<open>slice(-0)\<close> is \<^verbatim>\<open>slice(0)\<close>.
\<close>

definition jsSlice :: "'a list \<Rightarrow> int \<Rightarrow> int option \<Rightarrow> 'a list" where
  "jsSlice xs start end =
     (let len = int (length xs);
          k = (if start < 0 then max (len + start) 0 else min start len);
          final = (case end of
                     None \<Rightarrow> len
                   | Some e \<Rightarrow> if e < 0 then max (len + e) 0 else min e len)
      in take (nat (final - k)) (drop (nat k) xs))"

text \<open>\<^verbatim>\<open>xs[i]\<close> for an integer \<open>i\<close>: \<^verbatim>\<open>undefined\<close> outside the array.\<close>

definition jsIndex :: "'a list \<Rightarrow> int \<Rightarrow> 'a option" where
  "jsIndex xs i = (if 0 \<le> i \<and> i < int (length xs) then Some (xs ! nat i) else None)"

text \<open>
  Arithmetic on integer-valued Numbers. \<^verbatim>\<open>maxSegments\<close> is modelled as an integer; the
  rounding of each operation is kept, and the result of \<open>fl\<close> on an integer is an integer.
\<close>

definition mulFloor :: "int \<Rightarrow> rat \<Rightarrow> int" where
  "mulFloor a c = \<lfloor>fl (of_int a * c)\<rfloor>"

definition numSub :: "int \<Rightarrow> int \<Rightarrow> int" where
  "numSub a b = \<lfloor>fl (of_int a - of_int b)\<rfloor>"

definition numAdd :: "int \<Rightarrow> int \<Rightarrow> int" where
  "numAdd a b = \<lfloor>fl (of_int a + of_int b)\<rfloor>"

definition numMul :: "int \<Rightarrow> int \<Rightarrow> int" where
  "numMul a b = \<lfloor>fl (of_int a * of_int b)\<rfloor>"

definition divFloor :: "int \<Rightarrow> int \<Rightarrow> int" where
  "divFloor a b = \<lfloor>fl (of_int a / of_int b)\<rfloor>"

text \<open>
  The result of \<^verbatim>\<open>processTranscript\<close>. The \<^verbatim>\<open>message\<close>, a sentence printed from the counts,
  is left out. The elements of \<^verbatim>\<open>segments\<close> are objects, hence truthy: \<^verbatim>\<open>segments[idx]\<close> is
  falsy exactly when the index is outside the array.
\<close>

record 'a ProcessedTranscript =
  segments :: "'a list"
  isTruncated :: bool

text \<open>The \<^verbatim>\<open>smart\<close> branch.\<close>

definition introCount :: "int \<Rightarrow> int" where
  "introCount maxSegments = mulFloor maxSegments (fl (2 / 10))"

definition middleCount :: "int \<Rightarrow> int" where
  "middleCount maxSegments = mulFloor maxSegments (fl (3 / 10))"

definition conclusionCount :: "int \<Rightarrow> int" where
  "conclusionCount maxSegments =
     numSub (numSub maxSegments (introCount maxSegments)) (middleCount maxSegments)"

definition smartIntro :: "'a list \<Rightarrow> int \<Rightarrow> 'a list" where
  "smartIntro segs maxSegments = jsSlice segs 0 (Some (introCount maxSegments))"

definition conclusionStart :: "'a list \<Rightarrow> int \<Rightarrow> int" where
  "conclusionStart segs maxSegments =
     max (numSub (int (length segs)) (conclusionCount maxSegments)) (introCount maxSegments)"

definition smartConclusion :: "'a list \<Rightarrow> int \<Rightarrow> 'a list" where
  "smartConclusion segs maxSegments = jsSlice segs (conclusionStart segs maxSegments) None"

definition smartMiddle :: "'a list \<Rightarrow> int \<Rightarrow> 'a list" where
  "smartMiddle segs maxSegments =
     (if 0 < middleCount maxSegments \<and> introCount maxSegments < conclusionStart segs maxSegments
      then let middleStart = introCount maxSegments;
               middleEnd = conclusionStart segs maxSegments;
               middleRange = numSub middleEnd middleStart;
               step = fl (of_int middleRange / of_int (middleCount maxSegments))
           in concat (map (\<lambda>i. let idx = \<lfloor>fl (of_int middleStart + fl (of_nat i * step))\<rfloor>
                                 in if idx < middleEnd
                                    then (case jsIndex segs idx of Some x \<Rightarrow> [x] | None \<Rightarrow> [])
                                    else [])
                          [0..<nat (middleCount maxSegments)])
      else [])"

definition smartSample :: "'a list \<Rightarrow> int \<Rightarrow> 'a list" where
  "smartSample segs maxSegments =
     smartIntro segs maxSegments @ smartMiddle segs maxSegments @ smartConclusion segs maxSegments"

text \<open>The \<^verbatim>\<open>summary\<close> branch.\<close>

definition summaryIntro :: "int \<Rightarrow> int" where
  "summaryIntro maxSegments = mulFloor maxSegments (fl (1 / 10))"

definition summaryConclusion :: "int \<Rightarrow> int" where
  "summaryConclusion maxSegments = mulFloor maxSegments (fl (7 / 10))"

definition summaryMiddle :: "int \<Rightarrow> int" where
  "summaryMiddle maxSegments =
     numSub (numSub maxSegments (summaryIntro maxSegments)) (summaryConclusion maxSegments)"

definition summaryIntroPart :: "'a list \<Rightarrow> int \<Rightarrow> 'a list" where
  "summaryIntroPart segs maxSegments = jsSlice segs 0 (Some (summaryIntro maxSegments))"

definition summaryMiddlePart :: "'a list \<Rightarrow> int \<Rightarrow> 'a list" where
  "summaryMiddlePart segs maxSegments =
     (if 0 < summaryMiddle maxSegments
      then let rest = numSub (int (length segs)) (summaryConclusion maxSegments);
               middleStep = divFloor rest (summaryMiddle maxSegments)
           in concat (map (\<lambda>i. let idx = numAdd (summaryIntro maxSegments)
                                             (numMul (int i) middleStep)
                                 in if idx < rest
                                    then (case jsIndex segs idx of Some x \<Rightarrow> [x] | None \<Rightarrow> [])
                                    else [])
                          [0..<nat (summaryMiddle maxSegments)])
      else [])"

definition summaryConclusionPart :: "'a list \<Rightarrow> int \<Rightarrow> 'a list" where
  "summaryConclusionPart segs maxSegments = jsSlice segs (- summaryConclusion maxSegments) None"

definition summarySample :: "'a list \<Rightarrow> int \<Rightarrow> 'a list" where
  "summarySample segs maxSegments =
     summaryIntroPart segs maxSegments @ summaryMiddlePart segs maxSegments
       @ summaryConclusionPart segs maxSegments"

text \<open>\<^verbatim>\<open>processTranscript(segments, mode, maxSegments)\<close>; any other mode runs \<^verbatim>\<open>smart\<close>.\<close>

definition processTranscript :: "'a list \<Rightarrow> jsstring \<Rightarrow> int \<Rightarrow> 'a ProcessedTranscript" where
  "processTranscript segs mode maxSegments =
     (if int (length segs) \<le> maxSegments then \<lparr> segments = segs, isTruncated = False \<rparr>
      else if mode = js ''full''
        then \<lparr> segments = jsSlice segs 0 (Some maxSegments), isTruncated = True \<rparr>
      else if mode = js ''summary''
        then \<lparr> segments = summarySample segs maxSegments, isTruncated = True \<rparr>
      else \<lparr> segments = smartSample segs maxSegments, isTruncated = True \<rparr>)"

section \<open>Numbers that may be NaN or infinite\<close>

text \<open>
  The times of a cue come out of \<^verbatim>\<open>parseFloat\<close> and may be \<^verbatim>\<open>NaN\<close> or infinite. \<open>toNum\<close>
  rounds an exact result to a Number: a magnitude that rounds to \<open>2^1024\<close> overflows.
  A zero divisor does not occur in the program (every divisor is a literal).
\<close>

datatype jsnum = NaN | Fin rat | PInf | NInf

definition toNum :: "rat \<Rightarrow> jsnum" where
  "toNum x = (let y = fl x in if 2 ^ 1024 \<le> y then PInf else if y \<le> - (2 ^ 1024) then NInf else Fin y)"

fun numNeg :: "jsnum \<Rightarrow> jsnum" where
  "numNeg NaN = NaN"
| "numNeg (Fin a) = Fin (- a)"
| "numNeg PInf = NInf"
| "numNeg NInf = PInf"

fun numPlus :: "jsnum \<Rightarrow> jsnum \<Rightarrow> jsnum" where
  "numPlus (Fin a) (Fin b) = toNum (a + b)"
| "numPlus NaN y = NaN"
| "numPlus x NaN = NaN"
| "numPlus PInf NInf = NaN"
| "numPlus NInf PInf = NaN"
| "numPlus PInf y = PInf"
| "numPlus NInf y = NInf"
| "numPlus x PInf = PInf"
| "numPlus x NInf = NInf"

definition numMinus :: "jsnum \<Rightarrow> jsnum \<Rightarrow> jsnum" where
  "numMinus x y = numPlus x (numNeg y)"

definition infOfSign :: "rat \<Rightarrow> jsnum" where
  "infOfSign a = (if a = 0 then NaN else if 0 < a then PInf else NInf)"

fun numTimes :: "jsnum \<Rightarrow> jsnum \<Rightarrow> jsnum" where
  "numTimes (Fin a) (Fin b) = toNum (a * b)"
| "numTimes NaN y = NaN"
| "numTimes x NaN = NaN"
| "numTimes PInf (Fin b) = infOfSign b"
| "numTimes NInf (Fin b) = infOfSign (- b)"
| "numTimes (Fin a) PInf = infOfSign a"
| "numTimes (Fin a) NInf = infOfSign (- a)"
| "numTimes PInf PInf = PInf"
| "numTimes NInf NInf = PInf"
| "numTimes PInf NInf = NInf"
| "numTimes NInf PInf = NInf"

text \<open>Division by a finite Number other than zero.\<close>

fun numDivide :: "jsnum \<Rightarrow> rat \<Rightarrow> jsnum" where
  "numDivide (Fin a) b = toNum (a / b)"
| "numDivide NaN b = NaN"
| "numDivide PInf b = infOfSign b"
| "numDivide NInf b = infOfSign (- b)"

text \<open>\<^verbatim>\<open>Math.max(0, x)\<close> and \<^verbatim>\<open>x > y\<close>; a comparison with \<^verbatim>\<open>NaN\<close> is false.\<close>

fun numMax0 :: "jsnum \<Rightarrow> jsnum" where
  "numMax0 NaN = NaN"
| "numMax0 (Fin a) = Fin (max 0 a)"
| "numMax0 PInf = PInf"
| "numMax0 NInf = Fin 0"

fun numGreater :: "jsnum \<Rightarrow> jsnum \<Rightarrow> bool" where
  "numGreater (Fin a) (Fin b) = (b < a)"
| "numGreater NaN y = False"
| "numGreater x NaN = False"
| "numGreater PInf PInf = False"
| "numGreater PInf y = True"
| "numGreater x PInf = False"
| "numGreater NInf y = False"
| "numGreater x NInf = True"

text \<open>
  The value of a string of decimal (or hexadecimal) digits, and \<^verbatim>\<open>parseFloat\<close>: leading
  whitespace is skipped and the longest prefix that is a decimal literal is read (a sign,
  then \<^verbatim>\<open>Infinity\<close>, or digits with an optional fraction, or a fraction alone, then an
  optional exponent); the result is \<^verbatim>\<open>NaN\<close> when there is no such prefix.
\<close>

definition digitVal :: "jschar \<Rightarrow> nat" where
  "digitVal c = (if isDigit c then c - 48 else if 97 \<le> c then c - 87 else c - 55)"

definition digitsVal :: "nat \<Rightarrow> jsstring \<Rightarrow> nat" where
  "digitsVal base ds = foldl (\<lambda>acc c. acc * base + digitVal c) 0 ds"

definition pow10 :: "int \<Rightarrow> rat" where
  "pow10 e = 10 powi e"

definition exponentPart :: "jsstring \<Rightarrow> int" where
  "exponentPart s =
     (case s of
        [] \<Rightarrow> 0
      | c # cs \<Rightarrow>
          if c = 101 \<or> c = 69
          then (case cs of
                  [] \<Rightarrow> 0
                | d # ds \<Rightarrow>
                    if d = 43 \<or> d = 45
                    then (if takeWhile isDigit ds = [] then 0
                          else (if d = 45 then - 1 else 1)
                               * int (digitsVal 10 (takeWhile isDigit ds)))
                    else int (digitsVal 10 (takeWhile isDigit cs)))
          else 0)"

definition unsignedLiteral :: "jsstring \<Rightarrow> jsnum" where
  "unsignedLiteral s =
     (if startsWith s (js ''Infinity'') then PInf
      else let ip = takeWhile isDigit s; r1 = dropWhile isDigit s
           in case r1 of
                c # r2 \<Rightarrow>
                  if c = 46
                  then let fp = takeWhile isDigit r2; r3 = dropWhile isDigit r2
                       in if ip = [] \<and> fp = [] then NaN
                          else toNum ((of_nat (digitsVal 10 ip)
                                        + of_nat (digitsVal 10 fp) / 10 ^ length fp)
                                      * pow10 (exponentPart r3))
                  else if ip = [] then NaN
                       else toNum (of_nat (digitsVal 10 ip) * pow10 (exponentPart r1))
              | [] \<Rightarrow> if ip = [] then NaN else toNum (of_nat (digitsVal 10 ip)))"

definition parseFloat :: "jsstring \<Rightarrow> jsnum" where
  "parseFloat str =
     (case dropWhile isSpace str of
        [] \<Rightarrow> NaN
      | c # cs \<Rightarrow>
          if c = 45 then numNeg (unsignedLiteral cs)
          else if c = 43 then unsignedLiteral cs
          else unsignedLiteral (c # cs))"

text \<open>
  \<^verbatim>\<open>String.fromCharCode(parseInt(digits, base))\<close> for a non-empty string of digits: the
  value as a Number, reduced modulo \<open>2^16\<close> (an infinite value gives code unit 0).
\<close>

definition parseIntNum :: "nat \<Rightarrow> jsstring \<Rightarrow> jsnum" where
  "parseIntNum base ds = toNum (of_nat (digitsVal base ds))"

definition fromCharCode :: "jsnum \<Rightarrow> jsstring" where
  "fromCharCode n = (case n of Fin a \<Rightarrow> [nat (\<lfloor>a\<rfloor> mod 65536)] | _ \<Rightarrow> [0])"

section \<open>The text normalizer (cleanSubtitleText)\<close>

text \<open>The callback of the two numeric entity patterns: zero-width characters vanish.\<close>

definition decodeEntity :: "jsnum \<Rightarrow> jsstring" where
  "decodeEntity code =
     (if code = Fin 8203 \<or> code = Fin 8204 \<or> code = Fin 8205 then [] else fromCharCode code)"

text \<open>
  \<^verbatim>\<open>convertHalfWidthToFullWidth\<close>: the table \<^verbatim>\<open>halfToFull\<close> of the source, and the
  replacement of every code unit of the class \<^verbatim>\<open>[U+FF71-U+FF9D U+FF9E U+FF9F]\<close> by its
  entry (\<^verbatim>\<open>halfToFull[char] || char\<close>).
\<close>

definition halfToFull :: "(jschar \<times> jschar) list" where
  "halfToFull =
    [
      (65393, 12450), (65394, 12452), (65395, 12454), (65396, 12456), (65397, 12458),
      (65398, 12459), (65399, 12461), (65400, 12463), (65401, 12465), (65402, 12467),
      (65403, 12469), (65404, 12471), (65405, 12473), (65406, 12475), (65407, 12477),
      (65408, 12479), (65409, 12481), (65410, 12484), (65411, 12486), (65412, 12488),
      (65413, 12490), (65414, 12491), (65415, 12492), (65416, 12493), (65417, 12494),
      (65418, 12495), (65419, 12498), (65420, 12501), (65421, 12504), (65422, 12507),
      (65423, 12510), (65424, 12511), (65425, 12512), (65426, 12513), (65427, 12514),
      (65428, 12516), (65429, 12518), (65430, 12520), (65431, 12521), (65432, 12522),
      (65433, 12523), (65434, 12524), (65435, 12525), (65436, 12527), (65382, 12530),
      (65437, 12531), (65383, 12449), (65384, 12451), (65385, 12453), (65386, 12455),
      (65387, 12457), (65388, 12515), (65389, 12517), (65390, 12519), (65391, 12483),
      (65392, 12540), (65438, 12443), (65439, 12444) ]"

definition convertHalfWidthToFullWidth :: "jsstring \<Rightarrow> jsstring" where
  "convertHalfWidthToFullWidth t =
     replaceAll (Cls (\<lambda>c. (65393 \<le> c \<and> c \<le> 65437) \<or> c = 65438 \<or> c = 65439))
       (\<lambda>m. case m of [] \<Rightarrow> [] | c # _ \<Rightarrow> (case map_of halfToFull c of Some d \<Rightarrow> [d] | None \<Rightarrow> [c]))
       t"

text \<open>
  The steps of \<^verbatim>\<open>cleanSubtitleText\<close>, in the order of the source: each definition is one
  group of \<^verbatim>\<open>replace\<close> calls, and \<open>cleanSubtitleText\<close> chains them.
\<close>

definition remove :: "rx \<Rightarrow> jsstring \<Rightarrow> jsstring" where
  "remove r t = replaceAll r (\<lambda>m. []) t"

definition decodeNamed :: "jsstring \<Rightarrow> jsstring" where
  "decodeNamed t =
     replaceAll (Lit (js ''&nbsp;'')) (\<lambda>m. js '' '')
       (replaceAll (Lit (js ''&apos;'')) (\<lambda>m. [39])
         (replaceAll (Lit (js ''&quot;'')) (\<lambda>m. [34])
           (replaceAll (Lit (js ''&gt;'')) (\<lambda>m. js ''>'')
             (replaceAll (Lit (js ''&lt;'')) (\<lambda>m. js ''<'')
               (replaceAll (Lit (js ''&amp;'')) (\<lambda>m. js ''&'') t)))))"

definition decodeDecimal :: "jsstring \<Rightarrow> jsstring" where
  "decodeDecimal t =
     replaceAll (Seqs [Lit (js ''&#''), PlusR rxDigit, Chr 59])
       (\<lambda>m. decodeEntity (parseIntNum 10 (butlast (drop 2 m)))) t"

definition decodeHex :: "jsstring \<Rightarrow> jsstring" where
  "decodeHex t =
     replaceAll (Seqs [Lit (js ''&#x''), PlusR (Cls isHexDigit), Chr 59])
       (\<lambda>m. decodeEntity (parseIntNum 16 (butlast (drop 3 m)))) t"

definition decodeEntities :: "jsstring \<Rightarrow> jsstring" where
  "decodeEntities t = decodeHex (decodeDecimal (decodeNamed t))"

definition removeTags :: "jsstring \<Rightarrow> jsstring" where
  "removeTags t =
     remove (Seqs [Chr 60, OptR (Chr 47), Cls isAlpha, Star (Cls (\<lambda>c. c \<noteq> 62)), Chr 62])
       (remove (Seqs [Chr 60, RepN 2 rxDigit, Chr 58, RepN 2 rxDigit, Chr 58, RepN 2 rxDigit,
                      Chr 46, RepN 3 rxDigit, Chr 62]) t)"

definition soundMarkers :: "rx list" where
  "soundMarkers =
    [ PlusR (Chr 9834),
      LitCI ([91, 38899, 27005, 93]), LitCI ([91, 25293, 25163, 93]),
      LitCI ([91, 31505, 12356, 93]),
      LitCI (js ''[Music]''), LitCI (js ''[Applause]''), LitCI (js ''[Laughter]''),
      LitCI ([40, 38899, 27005, 41]), LitCI ([40, 25293, 25163, 41]),
      LitCI ([40, 31505, 12356, 41]),
      LitCI (js ''(Music)''), LitCI (js ''(Applause)''), LitCI (js ''(Laughter)'') ]"

definition removeSoundMarkers :: "jsstring \<Rightarrow> jsstring" where
  "removeSoundMarkers t = foldl (\<lambda>acc r. remove r acc) t soundMarkers"

definition punctuationOnly :: "jsstring \<Rightarrow> bool" where
  "punctuationOnly t =
     rxTest (Seqs [Bol,
                   PlusR (Cls (\<lambda>c. c = 12290 \<or> c = 12289 \<or> c = 44 \<or> c = 46 \<or> c = 33 \<or> c = 63
                                   \<or> c = 65281 \<or> c = 65311 \<or> isDigit c \<or> isSpace c)),
                   Eol]) t"

definition stripSpeakerMarker :: "jsstring \<Rightarrow> jsstring" where
  "stripSpeakerMarker t = remove (Seqs [Bol, Lit (js ''>>''), Star rxWs]) t"

definition collapseRepeats :: "jsstring \<Rightarrow> jsstring" where
  "collapseRepeats t = replaceAll (Run 3) (\<lambda>m. take 1 m) t"

definition normalizeWhitespace :: "jsstring \<Rightarrow> jsstring" where
  "normalizeWhitespace t = trim (replaceAll (PlusR rxWs) (\<lambda>m. js '' '') t)"

definition finishClean :: "jsstring \<Rightarrow> jsstring" where
  "finishClean t = (if punctuationOnly t then [] else normalizeWhitespace t)"

definition cleanSubtitleText :: "jsstring \<Rightarrow> jsstring" where
  "cleanSubtitleText t =
     finishClean
       (convertHalfWidthToFullWidth
         (collapseRepeats
           (stripSpeakerMarker
             (removeSoundMarkers
               (removeTags
                 (decodeEntities (trim t)))))))"

section \<open>The caption parsers and the duplicate collapser\<close>

text \<open>
  A segment. The field \<^verbatim>\<open>timestamp\<close> of the source is \<^verbatim>\<open>formatDuration(Math.floor(start))\<close>,
  a string printed from \<open>start\<close> alone, and is left out.
\<close>

record Segment =
  segText :: jsstring
  start :: jsnum
  duration :: jsnum

definition isValidSegmentText :: "jsstring \<Rightarrow> bool" where
  "isValidSegmentText t = (2 < length t)"

definition createSegmentIfValid ::
  "jsstring \<Rightarrow> jsnum \<Rightarrow> jsnum \<Rightarrow> jsstring \<Rightarrow> Segment option" where
  "createSegmentIfValid t startTime endTime lastText =
     (let d = numMax0 (numMinus endTime startTime)
      in if t \<noteq> lastText \<and> \<not> startsWith t (lastText @ js '' '')
            \<and> numGreater d (Fin (fl (1 / 10)))
         then Some \<lparr> segText = t, start = startTime, duration = d \<rparr>
         else None)"

text \<open>
  \<^verbatim>\<open>parseSrtTime\<close> and \<^verbatim>\<open>parseVttTime\<close>. \<^verbatim>\<open>split\<close> returns at least one piece, so the first
  element of the destructuring is a string; \<^verbatim>\<open>ms\<close> is \<^verbatim>\<open>undefined\<close> when there is no comma.
\<close>

definition hms :: "jsstring \<Rightarrow> jsstring \<Rightarrow> jsstring \<Rightarrow> jsnum" where
  "hms hours minutes seconds =
     numPlus (numPlus (numTimes (parseFloat hours) (Fin 3600))
                      (numTimes (parseFloat minutes) (Fin 60)))
             (parseFloat seconds)"

definition parseSrtTime :: "jsstring \<Rightarrow> jsnum" where
  "parseSrtTime timeStr =
     (case splitStr timeStr (js '','') of
        [] \<Rightarrow> NaN
      | time # others \<Rightarrow>
          (case splitStr time (js '':'') of
             [hours, minutes, seconds] \<Rightarrow>
               numPlus (hms hours minutes seconds)
                 (case others of
                    [] \<Rightarrow> Fin 0
                  | ms # _ \<Rightarrow> if ms \<noteq> [] then numDivide (parseFloat ms) 1000 else Fin 0)
           | _ \<Rightarrow> Fin 0))"

definition parseVttTime :: "jsstring \<Rightarrow> jsnum" where
  "parseVttTime timeStr =
     (case splitStr timeStr (js '':'') of
        [hours, minutes, seconds] \<Rightarrow> hms hours minutes seconds
      | [minutes, seconds] \<Rightarrow>
          numPlus (numTimes (parseFloat minutes) (Fin 60)) (parseFloat seconds)
      | _ \<Rightarrow> Fin 0)"

text \<open>
  The state of both parsing loops is the array \<^verbatim>\<open>segments\<close> and \<^verbatim>\<open>lastText\<close>, the text of
  the last segment accepted. \<open>cueTextLines\<close> is the inner loop over the text lines of a
  cue, and \<open>addCue\<close> the block that follows it: the duplicate collapser.
\<close>

type_synonym parseState = "Segment list \<times> jsstring"

definition cueTextLines :: "jsstring list \<Rightarrow> jsstring list" where
  "cueTextLines rawLines = filter isValidSegmentText (map cleanSubtitleText rawLines)"

definition addCue :: "parseState \<Rightarrow> jsstring list \<Rightarrow> jsnum \<Rightarrow> jsnum \<Rightarrow> parseState" where
  "addCue st textLines startTime endTime =
     (if textLines \<noteq> []
      then (case createSegmentIfValid (joinSp textLines) startTime endTime (snd st) of
              None \<Rightarrow> st
            | Some segment \<Rightarrow> (fst st @ [segment], segText segment))
      else st)"

abbreviation arrow :: jsstring where
  "arrow \<equiv> js ''-->''"

text \<open>\<^verbatim>\<open>/^\d+$/.test(line.trim())\<close>.\<close>

definition isNumberLine :: "jsstring \<Rightarrow> bool" where
  "isNumberLine l = rxTest (Seqs [Bol, PlusR rxDigit, Eol]) (trim l)"

definition isSrtTextLine :: "jsstring \<Rightarrow> bool" where
  "isSrtTextLine l = (trim l \<noteq> [] \<and> \<not> isNumberLine l)"

lemma length_dropWhile_less_Suc [simp]: "length (dropWhile P xs) < Suc (length xs)"
  by (simp add: le_imp_less_Suc length_dropWhile_le)

lemma length_dropWhile_less_Suc2 [simp]: "length (dropWhile P xs) < Suc (Suc (length xs))"
  by (simp add: less_SucI)

function parseSrtLoop :: "jsstring list \<Rightarrow> parseState \<Rightarrow> Segment list" where
  "parseSrtLoop [] st = fst st"
| "parseSrtLoop (l # rest) st =
     (if trim l = [] then parseSrtLoop rest st
      else if isNumberLine l
      then (case rest of
              [] \<Rightarrow> fst st
            | t # rest2 \<Rightarrow>
                if includesStr t arrow \<and> length (splitStr t arrow) = 2
                then parseSrtLoop (dropWhile isSrtTextLine rest2)
                       (addCue st (cueTextLines (takeWhile isSrtTextLine rest2))
                          (parseSrtTime (trim (splitStr t arrow ! 0)))
                          (parseSrtTime (trim (splitStr t arrow ! 1))))
                else parseSrtLoop rest st)
      else parseSrtLoop rest st)"
  by pat_completeness auto
termination
  by (relation "measure (\<lambda>(ls, st). length ls)") auto

definition parseSrtToSegments :: "jsstring \<Rightarrow> Segment list" where
  "parseSrtToSegments srtContent = parseSrtLoop (splitStr srtContent [10]) ([], [])"

text \<open>The WebVTT parser.\<close>

definition shouldSkipVttLine :: "jsstring \<Rightarrow> bool" where
  "shouldSkipVttLine l =
     (startsWith l (js ''WEBVTT'') \<or> startsWith l (js ''NOTE'') \<or> startsWith l (js ''STYLE'')
      \<or> startsWith l (js ''REGION'') \<or> trim l = [])"

definition cueSettings :: rx where
  "cueSettings =
     Seqs [PlusR rxWs,
           Alts [Lit (js ''position''), Lit (js ''align''), Lit (js ''size''), Lit (js ''line''),
                 Lit (js ''vertical'')],
           Chr 58]"

definition isNoteBodyLine :: "jsstring \<Rightarrow> bool" where
  "isNoteBodyLine l = (trim l \<noteq> [] \<and> \<not> includesStr l arrow)"

definition isVttTextLine :: "jsstring \<Rightarrow> bool" where
  "isVttTextLine l = (\<not> includesStr l arrow \<and> trim l \<noteq> [])"

function parseVttLoop :: "jsstring list \<Rightarrow> parseState \<Rightarrow> Segment list" where
  "parseVttLoop [] st = fst st"
| "parseVttLoop (l # rest) st =
     (if shouldSkipVttLine l then parseVttLoop rest st
      else if trim l = js ''NOTE'' then parseVttLoop (dropWhile isNoteBodyLine rest) st
      else if includesStr l arrow
      then (let timestamps = splitStr (rxSplitFirst cueSettings l) arrow
            in if length timestamps = 2
               then parseVttLoop (dropWhile isVttTextLine rest)
                      (addCue st (cueTextLines (takeWhile isVttTextLine rest))
                         (parseVttTime (trim (timestamps ! 0)))
                         (parseVttTime (trim (timestamps ! 1))))
               else parseVttLoop rest st)
      else parseVttLoop rest st)"
  by pat_completeness auto
termination
  by (relation "measure (\<lambda>(ls, st). length ls)") auto

definition parseVttToSegments :: "jsstring \<Rightarrow> Segment list" where
  "parseVttToSegments vttContent = parseVttLoop (splitStr vttContent [10]) ([], [])"

section \<open>The transcript result\<close>








section \<open>Running the model\<close>

text \<open>
  The definitions unfolded when the model is run on a concrete input. \<open>noOptions\<close> is the
  default \<^verbatim>\<open>options = {}\<close> of the classifier.
\<close>

lemmas ev = js_def isDigit_def isUpper_def isLower_def isAlpha_def isHexDigit_def
  isWordChar_def isLineTerminator_def isSpace_def asciiLower_def eqCI_def toLowerCase_def
  isHighSurrogate_def isLowSurrogate_def fromCodePoint_def lowerTable_def casedTable_def
  caseIgnorableTable_def
  trim_def splitStr_def PlusR_def OptR_def Chr_def rxTest_def replaceAll_def rxSplit_def
  rxSplitFirst_def SPAM_PATTERNS_def NOISE_PATTERNS_def BOT_PATTERNS_def emojiCodePoint_def
  legitimatePatterns_def keyboardPatterns_def isConsonant_def isGibberish_def

lemmas evClean = cleanSubtitleText_def decodeEntities_def decodeNamed_def decodeDecimal_def
  decodeHex_def stripSpeakerMarker_def collapseRepeats_def normalizeWhitespace_def
  finishClean_def removeTags_def soundMarkers_def halfToFull_def removeSoundMarkers_def
  punctuationOnly_def remove_def convertHalfWidthToFullWidth_def digitVal_def digitsVal_def

lemmas evParse = isValidSegmentText_def cueTextLines_def isNumberLine_def isSrtTextLine_def
  parseSrtToSegments_def shouldSkipVttLine_def cueSettings_def isNoteBodyLine_def
  isVttTextLine_def parseVttToSegments_def addCue_def createSegmentIfValid_def

lemmas nev = parseSrtTime_def parseVttTime_def hms_def parseFloat_def unsignedLiteral_def
  exponentPart_def pow10_def toNum_def numMinus_def infOfSign_def digitVal_def digitsVal_def
  fl_halves fl_1_10

definition noOptions :: CommentFilterOptions where
  "noOptions =
     \<lparr> enableFiltering = None, removeSpam = None, removeNoise = None, removeUnrelated = None \<rparr>"

definition filteringOff :: CommentFilterOptions where
  "filteringOff =
     \<lparr> enableFiltering = Some False, removeSpam = None, removeNoise = None,
       removeUnrelated = None \<rparr>"

section \<open>The classifier: author exemption and bypass\<close>

lemma isRepeatedText_short:
  "length (rxSplit (PlusR rxWs) (toLowerCase t)) < 5 \<Longrightarrow> isRepeatedText t = False"
  by (simp add: isRepeatedText_def Let_def)

lemma first_words: "rxSplit (PlusR rxWs) (toLowerCase (js ''First!'')) = [js ''first!'']"
  by (simp add: ev)

text \<open>
  C6, as stated, fails. The exemption is guarded by the truthiness of
  \<^verbatim>\<open>videoAuthorChannelId\<close>: when the channel of the video is unknown (\<^verbatim>\<open>undefined\<close>) and the
  comment has no \<^verbatim>\<open>authorChannelId\<close> either, the two are equal and the comment ``First!''
  is filtered all the same; likewise when both are the empty string.
\<close>

theorem author_exemption_counterexample:
  "authorChannelId (Comment (Some (js ''First!'')) None None ()) = None
   \<and> shouldFilterComment (Comment (Some (js ''First!'')) None None ()) noOptions None = True
   \<and> authorChannelId (Comment (Some (js ''First!'')) (Some []) None ()) = Some []
   \<and> shouldFilterComment (Comment (Some (js ''First!'')) (Some []) None ()) noOptions (Some [])
       = True"
  apply (simp add: shouldFilterComment_def noOptions_def isVideoAuthor_def isRepeatedText_short
      first_words)
  apply (simp add: ev)
  done

text \<open>
  C6, amended: for every comment whose \<^verbatim>\<open>authorChannelId\<close> equals the
  \<^verbatim>\<open>videoAuthorChannelId\<close> passed to the classifier, when that identifier is defined and
  not the empty string, \<^verbatim>\<open>shouldFilterComment\<close> returns false, whatever the text of the
  comment and whatever the options.
\<close>

theorem author_exemption:
  "v \<noteq> [] \<Longrightarrow> authorChannelId c = Some v \<Longrightarrow> shouldFilterComment c options (Some v) = False"
  by (simp add: shouldFilterComment_def isVideoAuthor_def)

theorem author_exemption_witness:
  "js ''UC1'' \<noteq> []
   \<and> authorChannelId (Comment (Some (js ''First!'')) (Some (js ''UC1'')) None ()) = Some (js ''UC1'')
   \<and> shouldFilterComment (Comment (Some (js ''First!'')) (Some (js ''UC1'')) None ()) noOptions
         (Some (js ''UC1'')) = False"
  using author_exemption [of "js ''UC1''" "Comment (Some (js ''First!'')) (Some (js ''UC1'')) None ()"
      noOptions]
  by (simp add: js_def)

text \<open>
  C7: with \<^verbatim>\<open>enableFiltering\<close> false, \<^verbatim>\<open>filterComments\<close> returns its argument, no comment
  or reply of the caller's array is changed, \<^verbatim>\<open>shouldFilterComment\<close> is false for every
  comment, and \<^verbatim>\<open>getFilterStats\<close> counts no filtered comment.
\<close>

theorem disable_bypass:
  "enableFiltering options = Some False \<Longrightarrow>
     filterComments cs options v = cs \<and> filterCommentsInput cs options v = cs
     \<and> shouldFilterComment c options v = False \<and> filtered (getFilterStats cs options v) = 0"
  by (simp add: filterComments_def filterCommentsInput_def shouldFilterComment_def
      getFilterStats_def Let_def)

theorem disable_bypass_witness:
  "enableFiltering filteringOff = Some False
   \<and> filterComments
         [Comment (Some (js ''First!'')) None
            (Some [Comment (Some (js ''bit.ly/x'')) None None ()]) ()] filteringOff None
       = [Comment (Some (js ''First!'')) None
            (Some [Comment (Some (js ''bit.ly/x'')) None None ()]) ()]
   \<and> shouldFilterComment (Comment (Some (js ''First!'')) None None ()) filteringOff None = False
   \<and> filtered (getFilterStats
         [Comment (Some (js ''First!'')) None
            (Some [Comment (Some (js ''bit.ly/x'')) None None ()]) ()] filteringOff None) = 0"
  using disable_bypass [of filteringOff
      "[Comment (Some (js ''First!'')) None (Some [Comment (Some (js ''bit.ly/x'')) None None ()]) ()]"
      None "Comment (Some (js ''First!'')) None None ()"]
  by (simp add: filteringOff_def)


section \<open>The repeated-token rule\<close>

text \<open>
  The rule in the words of the specification. The tokens of a text are its maximal runs
  of code units that are not whitespace, each of them lower-cased; the rule holds of a
  list of tokens when there are at least five of them and some token longer than two code
  units occurs more than 40 percent of their number.
\<close>

function tokenize :: "jsstring \<Rightarrow> jsstring list" where
  "tokenize [] = []"
| "tokenize (c # cs) =
     (if isSpace c then tokenize cs
      else (c # takeWhile (\<lambda>x. \<not> isSpace x) cs) # tokenize (dropWhile (\<lambda>x. \<not> isSpace x) cs))"
  by pat_completeness auto
termination
  by (relation "measure length") (auto simp add: length_dropWhile_le less_Suc_eq_le)

definition repeatedTokenRule :: "jsstring list \<Rightarrow> bool" where
  "repeatedTokenRule tokens =
     (5 \<le> length tokens
      \<and> (\<exists>w \<in> set tokens. 2 < length w \<and> 40 * length tokens < 100 * count_list tokens w))"

definition repeatedTokenSpec :: "jsstring \<Rightarrow> bool" where
  "repeatedTokenSpec t = repeatedTokenRule (map toLowerCase (tokenize t))"

text \<open>
  The token list of the amended rule: the text is lower-cased as a whole, and next to its
  tokens there is one empty token when the text is empty or starts with whitespace, and
  one when it ends with whitespace.
\<close>

definition leadingEmpty :: "jsstring \<Rightarrow> jsstring list" where
  "leadingEmpty s = (if s = [] \<or> isSpace (hd s) then [[]] else [])"

definition trailingEmpty :: "jsstring \<Rightarrow> jsstring list" where
  "trailingEmpty s = (if s \<noteq> [] \<and> isSpace (last s) then [[]] else [])"

definition splitTokens :: "jsstring \<Rightarrow> jsstring list" where
  "splitTokens s = leadingEmpty s @ tokenize s @ trailingEmpty s"

definition repeatedTokenAmended :: "jsstring \<Rightarrow> bool" where
  "repeatedTokenAmended t = repeatedTokenRule (splitTokens (toLowerCase t))"

subsection \<open>Splitting on runs of whitespace\<close>

lemma rxm_Star_Cls: "\<exists>q sts. rxm (Star (Cls f)) p s = (q, dropWhile f s) # sts"
proof (induction s arbitrary: p)
  case Nil
  show ?case by simp
next
  case (Cons c cs)
  show ?case
  proof (cases "f c")
    case True
    from Cons.IH[of "Some c"] obtain q sts
      where "rxm (Star (Cls f)) (Some c) cs = (q, dropWhile f cs) # sts" by blast
    then show ?thesis using True by (subst rxm_Star) simp
  next
    case False
    then show ?thesis by simp
  qed
qed

lemma rxm_run_none: "\<not> f c \<Longrightarrow> rxm (PlusR (Cls f)) p (c # cs) = []"
  by (simp add: PlusR_def)

lemma rxm_run_first:
  assumes "f c"
  shows "\<exists>q sts. rxm (PlusR (Cls f)) p (c # cs) = (q, dropWhile f cs) # sts"
proof -
  from rxm_Star_Cls[of f "Some c" cs] obtain q sts
    where "rxm (Star (Cls f)) (Some c) cs = (q, dropWhile f cs) # sts" by blast
  then show ?thesis using assms by (simp add: PlusR_def del: rxm_Star)
qed

lemma rxSplitLoop_nonspace:
  "\<not> isSpace c \<Longrightarrow>
     rxSplitLoop (PlusR rxWs) cur p (c # cs) = rxSplitLoop (PlusR rxWs) (c # cur) (Some c) cs"
  by (simp add: rxm_run_none)

lemma rxSplitLoop_space:
  assumes "isSpace c"
  shows "\<exists>q. rxSplitLoop (PlusR rxWs) cur p (c # cs)
     = rev cur # rxSplitLoop (PlusR rxWs) [] q (dropWhile isSpace cs)"
proof -
  from rxm_run_first[of isSpace c p cs] assms obtain q sts
    where "rxm (PlusR rxWs) p (c # cs) = (q, dropWhile isSpace cs) # sts" by blast
  then show ?thesis by (auto simp add: less_Suc_eq_le length_dropWhile_le)
qed

lemma tokenize_dropWhile: "tokenize (dropWhile isSpace s) = tokenize s"
  by (induction s) simp_all

lemma trailingEmpty_Cons: "cs \<noteq> [] \<Longrightarrow> trailingEmpty (c # cs) = trailingEmpty cs"
  by (simp add: trailingEmpty_def)

lemma last_dropWhile: "dropWhile f s \<noteq> [] \<Longrightarrow> last (dropWhile f s) = last s"
  by (induction s) auto

lemma trailingEmpty_dropWhile:
  "dropWhile f s \<noteq> [] \<Longrightarrow> trailingEmpty (dropWhile f s) = trailingEmpty s"
  using last_dropWhile[of f s] by (auto simp add: trailingEmpty_def)

lemma trailingEmpty_spaces: "dropWhile isSpace cs = [] \<Longrightarrow> isSpace c \<Longrightarrow> trailingEmpty (c # cs) = [[]]"
  by (induction cs arbitrary: c) (auto simp add: trailingEmpty_def split: if_splits)

lemma rxSplitLoop_tokens:
  "rxSplitLoop (PlusR rxWs) cur p s =
     (if cur = [] then leadingEmpty s @ tokenize s @ trailingEmpty s
      else (rev cur @ takeWhile (\<lambda>x. \<not> isSpace x) s)
           # tokenize (dropWhile (\<lambda>x. \<not> isSpace x) s) @ trailingEmpty s)"
proof (induction "length s" arbitrary: s cur p rule: less_induct)
  case less
  show ?case
  proof (cases s)
    case Nil
    then show ?thesis by (simp add: leadingEmpty_def trailingEmpty_def)
  next
    case (Cons c cs)
    show ?thesis
    proof (cases "isSpace c")
      case False
      have t: "trailingEmpty (c # cs) = trailingEmpty cs"
        using False by (cases cs) (simp_all add: trailingEmpty_def)
      have "rxSplitLoop (PlusR rxWs) cur p s = rxSplitLoop (PlusR rxWs) (c # cur) (Some c) cs"
        using False by (simp add: Cons rxSplitLoop_nonspace del: rxSplitLoop.simps)
      also have "\<dots> = (rev (c # cur) @ takeWhile (\<lambda>x. \<not> isSpace x) cs)
           # tokenize (dropWhile (\<lambda>x. \<not> isSpace x) cs) @ trailingEmpty cs"
        using less[of cs "c # cur" "Some c"] by (simp add: Cons)
      finally show ?thesis using False by (simp add: Cons t leadingEmpty_def)
    next
      case True
      let ?s' = "dropWhile isSpace cs"
      from rxSplitLoop_space[OF True, of cur p cs] obtain q
        where q: "rxSplitLoop (PlusR rxWs) cur p s = rev cur # rxSplitLoop (PlusR rxWs) [] q ?s'"
        by (auto simp add: Cons)
      have "length ?s' < length s" by (simp add: Cons less_Suc_eq_le length_dropWhile_le)
      from less[OF this, of "[]" q]
      have ih: "rxSplitLoop (PlusR rxWs) [] q ?s' = leadingEmpty ?s' @ tokenize ?s' @ trailingEmpty ?s'"
        by simp
      have rest: "leadingEmpty ?s' @ tokenize ?s' @ trailingEmpty ?s' = tokenize cs @ trailingEmpty (c # cs)"
      proof (cases "?s' = []")
        case True
        have e: "tokenize cs = []"
          using tokenize_dropWhile[of cs] by (simp only: True tokenize.simps)
        have n: "trailingEmpty [] = []" by (simp add: trailingEmpty_def)
        show ?thesis
          unfolding True e trailingEmpty_spaces[OF True \<open>isSpace c\<close>] n
          by (simp add: leadingEmpty_def)
      next
        case False
        then have cs: "cs \<noteq> []" by auto
        have "\<not> isSpace (hd ?s')" using False hd_dropWhile[of isSpace cs] by simp
        then have "leadingEmpty ?s' = []" using False by (simp add: leadingEmpty_def)
        then show ?thesis
          using trailingEmpty_dropWhile[OF False] trailingEmpty_Cons[OF cs, of c]
          by (simp add: tokenize_dropWhile)
      qed
      have "rxSplitLoop (PlusR rxWs) cur p s = rev cur # tokenize cs @ trailingEmpty (c # cs)"
        by (simp only: q ih rest)
      then show ?thesis
        using True by (simp add: Cons leadingEmpty_def del: rxSplitLoop.simps)
    qed
  qed
qed

lemma rxSplit_tokens: "rxSplit (PlusR rxWs) s = splitTokens s"
proof (cases s)
  case Nil
  then show ?thesis
    by (simp add: rxSplit_def splitTokens_def leadingEmpty_def trailingEmpty_def PlusR_def)
next
  case (Cons c cs)
  then show ?thesis using rxSplitLoop_tokens[of "[]" None s] by (simp add: rxSplit_def splitTokens_def)
qed

subsection \<open>The counting loop\<close>

text \<open>The counting loop and the \<^verbatim>\<open>Map\<close> of the source against \<open>count_list\<close>.\<close>

lemma rxSplitLoop_length: "length (rxSplitLoop r cur p s) \<le> length s + 1"
  by (induction r cur p s rule: rxSplitLoop.induct) (auto split: list.splits)

lemma rxSplit_length: "length (rxSplit r s) \<le> length s + 1"
  using rxSplitLoop_length[of r "[]" None s] by (simp add: rxSplit_def)

lemma anyCountAbove_iff: "anyCountAbove limit counts \<longleftrightarrow> (\<exists>c \<in> set counts. of_nat c > limit)"
  by (induction counts) auto

lemma bump_map_of:
  "map_of (bump w m) k = (if k = w then Some (case map_of m w of None \<Rightarrow> 1 | Some n \<Rightarrow> n + 1) else map_of m k)"
  by (induction m) auto

lemma bump_keys:
  "map fst (bump w m) = (if w \<in> set (map fst m) then map fst m else map fst m @ [w])"
proof (induction m)
  case Nil
  then show ?case by simp
next
  case (Cons a m)
  obtain k n where a: "a = (k, n)" by (cases a)
  show ?case using Cons.IH by (simp add: a del: set_map)
qed

lemma bump_distinct: "distinct (map fst m) \<Longrightarrow> distinct (map fst (bump w m))"
  by (simp add: bump_keys del: set_map)

definition cnt :: "(jsstring \<times> nat) list \<Rightarrow> jsstring \<Rightarrow> nat" where
  "cnt m k = (case map_of m k of None \<Rightarrow> 0 | Some n \<Rightarrow> n)"

lemma countWord_distinct: "distinct (map fst m) \<Longrightarrow> distinct (map fst (countWord m w))"
  by (simp add: countWord_def bump_distinct)

lemma foldl_countWord_distinct:
  "distinct (map fst m) \<Longrightarrow> distinct (map fst (foldl countWord m ws))"
  by (induction ws arbitrary: m) (auto simp: countWord_distinct)

lemma countWord_map_of:
  "map_of (countWord m w) k = (if 2 < length w \<and> k = w then Some (cnt m w + 1) else map_of m k)"
  by (simp add: countWord_def bump_map_of cnt_def split: option.splits)

lemma countWord_cnt:
  "cnt (countWord m w) k = (if 2 < length w \<and> k = w then cnt m k + 1 else cnt m k)"
  by (simp add: cnt_def countWord_map_of)

lemma foldl_countWord_map_of:
  "map_of (foldl countWord m ws) k =
     (if 2 < length k \<and> k \<in> set ws then Some (count_list ws k + cnt m k) else map_of m k)"
proof (induction ws arbitrary: m)
  case Nil
  then show ?case by simp
next
  case (Cons w ws)
  have "map_of (foldl countWord m (w # ws)) k = map_of (foldl countWord (countWord m w) ws) k"
    by simp
  also have "\<dots> = (if 2 < length k \<and> k \<in> set ws
                     then Some (count_list ws k + cnt (countWord m w) k)
                     else map_of (countWord m w) k)"
    by (rule Cons.IH)
  also have "\<dots> = (if 2 < length k \<and> k \<in> set (w # ws)
                     then Some (count_list (w # ws) k + cnt m k) else map_of m k)"
    by (auto simp add: countWord_map_of countWord_cnt)
  finally show ?case .
qed

lemma wordCounts_values:
  "set (map snd (foldl countWord [] ws)) = {count_list ws k | k. k \<in> set ws \<and> 2 < length k}"
proof -
  let ?M = "foldl countWord [] ws"
  have d: "distinct (map fst ?M)" by (rule foldl_countWord_distinct) simp
  have "set (map snd ?M) = ran (map_of ?M)" using ran_distinct[OF d] by simp
  also have "\<dots> = {count_list ws k | k. k \<in> set ws \<and> 2 < length k}"
    by (auto simp add: ran_def foldl_countWord_map_of cnt_def)
  finally show ?thesis .
qed

lemma count_above_fl_norm:
  "n < 2 ^ 50 \<Longrightarrow> (fl (of_nat n * fl (2 / 5)) < of_nat c) \<longleftrightarrow> 2 * n < 5 * c"
  using count_above_fl[of n c] by simp

lemma toCodePoints_length: "length (toCodePoints s) \<le> length s"
  by (induction s rule: toCodePoints.induct) auto

lemma lowerLoop_length: "length (lowerLoop seen cps) \<le> 2 * length cps"
proof (induction cps arbitrary: seen)
  case Nil
  show ?case by simp
next
  case (Cons cp cps)
  show ?case using Cons.IH[of "cp # seen"] by auto
qed

lemma fromCodePoint_length: "length (concat (map fromCodePoint cps)) \<le> 2 * length cps"
  by (induction cps) (auto simp add: fromCodePoint_def)

lemma toLowerCase_length: "length (toLowerCase s) \<le> 4 * length s"
proof -
  have "length (toLowerCase s) \<le> 2 * length (lowerLoop [] (toCodePoints s))"
    unfolding toLowerCase_def by (rule fromCodePoint_length)
  also have "\<dots> \<le> 2 * (2 * length (toCodePoints s))"
    using lowerLoop_length[of "[]" "toCodePoints s"] by simp
  also have "\<dots> \<le> 4 * length s" using toCodePoints_length[of s] by simp
  finally show ?thesis .
qed

lemma isRepeatedText_iff:
  assumes "length t < 2 ^ 32"
  shows "isRepeatedText t \<longleftrightarrow> repeatedTokenAmended t"
proof -
  define words where "words = rxSplit (PlusR rxWs) (toLowerCase t)"
  have "length words \<le> length (toLowerCase t) + 1"
    unfolding words_def by (rule rxSplit_length)
  also have "\<dots> \<le> 4 * length t + 1" using toLowerCase_length[of t] by simp
  also have "\<dots> < 2 ^ 50" using assms by simp
  finally have n: "length words < 2 ^ 50" .
  have "isRepeatedText t \<longleftrightarrow> repeatedTokenRule words"
    unfolding isRepeatedText_def words_def[symmetric] Let_def repeatedTokenRule_def
    by (auto simp add: anyCountAbove_iff wordCounts_values count_above_fl_norm[OF n]
        simp del: set_map)
  then show ?thesis by (simp add: words_def rxSplit_tokens repeatedTokenAmended_def)
qed

subsection \<open>The rule in the classifier\<close>

lemma first_tokens: "map toLowerCase (tokenize (js ''First!'')) = [js ''first!'']"
  by (simp add: ev)

lemma spam_tokens:
  "map toLowerCase (tokenize (js '' spam spam spam a''))
     = [js ''spam'', js ''spam'', js ''spam'', js ''a'']"
  by (simp add: ev)

lemma spam_words:
  "rxSplit (PlusR rxWs) (toLowerCase (js '' spam spam spam a''))
     = [[], js ''spam'', js ''spam'', js ''spam'', js ''a'']"
  by (simp add: ev)

lemma spam_no_spam_pattern:
  "\<not> testAny SPAM_PATTERNS (js ''First!'')" "\<not> testAny SPAM_PATTERNS (js '' spam spam spam a'')"
  by (simp_all add: ev)

lemma spam_repeated: "isRepeatedText (js '' spam spam spam a'')"
proof -
  have "repeatedTokenAmended (js '' spam spam spam a'')"
    by (simp add: repeatedTokenAmended_def rxSplit_tokens[symmetric] spam_words
        repeatedTokenRule_def) (simp add: js_def)
  then show ?thesis using isRepeatedText_iff[of "js '' spam spam spam a''"] by (simp add: js_def)
qed

text \<open>
  C8, as stated, fails. The comment ``First!'' matches no spam pattern and has a single
  token, and it is flagged all the same, by a later check (the pattern for ``First!''
  comments). The comment `` spam spam spam a'' has four tokens, fewer than the five that
  the rule asks for, and the repeated-token check of the source flags it: \<^verbatim>\<open>split\<close> gives
  an empty piece before the leading blank, which is counted as a fifth token.
\<close>

theorem repeated_token_rule_counterexample:
  "\<not> testAny SPAM_PATTERNS (js ''First!'')
   \<and> \<not> repeatedTokenSpec (js ''First!'')
   \<and> shouldFilterComment (Comment (Some (js ''First!'')) None None ()) noOptions None
   \<and> \<not> testAny SPAM_PATTERNS (js '' spam spam spam a'')
   \<and> \<not> repeatedTokenSpec (js '' spam spam spam a'')
   \<and> isRepeatedText (js '' spam spam spam a'')
   \<and> shouldFilterComment (Comment (Some (js '' spam spam spam a'')) None None ()) noOptions None"
proof -
  have a: "\<not> repeatedTokenSpec (js ''First!'')"
    by (simp add: repeatedTokenSpec_def first_tokens repeatedTokenRule_def)
  have b: "\<not> repeatedTokenSpec (js '' spam spam spam a'')"
    by (simp add: repeatedTokenSpec_def spam_tokens repeatedTokenRule_def)
  have c: "shouldFilterComment (Comment (Some (js ''First!'')) None None ()) noOptions None"
    apply (simp add: shouldFilterComment_def noOptions_def isVideoAuthor_def isRepeatedText_short
        first_words)
    apply (simp add: ev)
    done
  have d: "shouldFilterComment (Comment (Some (js '' spam spam spam a'')) None None ()) noOptions
      None"
    by (simp add: shouldFilterComment_def noOptions_def isVideoAuthor_def spam_repeated)
  show ?thesis using a b c d spam_no_spam_pattern spam_repeated by simp
qed

text \<open>
  C8, amended: with filtering and the spam check active, for a comment that is not
  exempt as the video author's and whose text (shorter than \<open>2^32\<close> code units) matches no
  pattern of \<^verbatim>\<open>SPAM_PATTERNS\<close>, the repeated-token check of the source returns true exactly
  when the rule holds of the token list of the lower-cased text, the empty tokens at a
  leading or trailing run of whitespace included: the double product
  \<^verbatim>\<open>words.length * 0.4\<close> decides as the exact 40 percent does. The comment is flagged
  exactly when the rule holds or one of the later checks, for noise and for bot comments,
  flags it.
\<close>

theorem repeated_token_rule:
  assumes "length t < 2 ^ 32"
    and "enableFiltering options \<noteq> Some False" and "\<not> isVideoAuthor c v"
    and "removeSpam options \<noteq> Some False"
    and "commentText c = Some t" and "\<not> testAny SPAM_PATTERNS t"
  shows "isRepeatedText t = repeatedTokenAmended t
     \<and> shouldFilterComment c options v
         = (repeatedTokenAmended t
            \<or> (removeNoise options \<noteq> Some False
                \<and> (testAny NOISE_PATTERNS t \<or> trim t = [] \<or> isGibberish t))
            \<or> (removeUnrelated options \<noteq> Some False \<and> testAny BOT_PATTERNS t))"
proof -
  have r: "isRepeatedText t = repeatedTokenAmended t"
    using isRepeatedText_iff[OF assms(1)] by simp
  show ?thesis
    using assms(2-6) by (auto simp add: r [symmetric] shouldFilterComment_def Let_def)
qed

text \<open>The comment ``asdf asdf asdf asdf asdf'' is filtered by this rule.\<close>

lemma asdf_tokens:
  "splitTokens (toLowerCase (js ''asdf asdf asdf asdf asdf''))
     = [js ''asdf'', js ''asdf'', js ''asdf'', js ''asdf'', js ''asdf'']"
  by (simp add: splitTokens_def leadingEmpty_def trailingEmpty_def ev)

lemma asdf_no_spam_pattern: "\<not> testAny SPAM_PATTERNS (js ''asdf asdf asdf asdf asdf'')"
  by (simp add: ev)

theorem repeated_token_rule_witness:
  "length (js ''asdf asdf asdf asdf asdf'') < 2 ^ 32
   \<and> \<not> isVideoAuthor (Comment (Some (js ''asdf asdf asdf asdf asdf'')) None None ()) None
   \<and> \<not> testAny SPAM_PATTERNS (js ''asdf asdf asdf asdf asdf'')
   \<and> repeatedTokenAmended (js ''asdf asdf asdf asdf asdf'')
   \<and> isRepeatedText (js ''asdf asdf asdf asdf asdf'')
   \<and> shouldFilterComment (Comment (Some (js ''asdf asdf asdf asdf asdf'')) None None ()) noOptions
         None = True"
proof -
  have l: "length (js ''asdf asdf asdf asdf asdf'') < 2 ^ 32" by (simp add: js_def)
  have s: "repeatedTokenAmended (js ''asdf asdf asdf asdf asdf'')"
    by (simp add: repeatedTokenAmended_def asdf_tokens repeatedTokenRule_def) (simp add: js_def)
  have o: "enableFiltering noOptions \<noteq> Some False" "removeSpam noOptions \<noteq> Some False"
    by (simp_all add: noOptions_def)
  have a: "\<not> isVideoAuthor (Comment (Some (js ''asdf asdf asdf asdf asdf'')) None None ()) None"
    by (simp add: isVideoAuthor_def)
  from repeated_token_rule [OF l o(1) a o(2) _ asdf_no_spam_pattern] s l a asdf_no_spam_pattern
  show ?thesis by simp
qed


section \<open>The sampler: budgets\<close>

lemma summary_counts_1: "summaryIntro 1 = 0" "summaryConclusion 1 = 0" "summaryMiddle 1 = 1"
  "numSub 3 0 = 3" "divFloor 3 1 = 3" "numMul 0 3 = 0" "numAdd 0 0 = 0"
  by code_simp+

text \<open>
  C5 fails on the code in the \<^verbatim>\<open>summary\<close> branch at \<^verbatim>\<open>maxSegments = 1\<close>: the conclusion count
  \<^verbatim>\<open>Math.floor(1 * 0.7)\<close> is 0 and \<^verbatim>\<open>segments.slice(-0)\<close> is the whole array, so three
  segments sampled with a budget of one come back as four, the first of them twice.
\<close>

theorem summary_budget_exceeded:
  "segments (processTranscript [a, b, c] (js ''summary'') 1) = [a, a, b, c]"
  by (simp add: processTranscript_def summarySample_def summaryIntroPart_def summaryMiddlePart_def
      summaryConclusionPart_def summary_counts_1 jsSlice_def jsIndex_def Let_def js_def)

subsection \<open>Budgets of zero and below\<close>

lemma fl_pos:
  assumes "0 < x" "pow2 (- 1022) \<le> x"
  shows "0 < fl x"
proof -
  define u where "u = pow2 (expo x - 52)"
  have u0: "0 < u" by (simp add: u_def)
  have "pow2 52 * u = pow2 (52 + (expo x - 52))" unfolding u_def by (rule pow2_add[symmetric])
  also have "\<dots> \<le> x" using expo_bounds[OF assms(1)] by simp
  finally have "pow2 52 \<le> x / u" using u0 by (simp add: pos_le_divide_eq)
  moreover have "pow2 52 = of_int (2 ^ 52)" by (simp add: pow2_nat)
  ultimately have "(2 ^ 52 :: int) \<le> \<lfloor>x / u\<rfloor>" by (simp add: le_floor_iff)
  moreover have "(0 :: int) < 2 ^ 52" by simp
  ultimately have "0 < roundHalfEven (x / u)" using roundHalfEven_ge_floor[of "x / u"] by linarith
  then have "0 < of_int (roundHalfEven (x / u)) * u" using u0 by simp
  then show ?thesis using fl_pos_unfold[OF assms] by (simp add: u_def)
qed

lemma fl_2_10: "fl (2 / 10) = 3602879701896397 / 18014398509481984"
  by code_simp

lemma fl_3_10: "fl (3 / 10) = 5404319552844595 / 18014398509481984"
  by code_simp

lemma fl_7_10: "fl (7 / 10) = 3152519739159347 / 4503599627370496"
  by code_simp

lemma mulFloor_zero [simp]: "mulFloor 0 c = 0"
  by (simp add: mulFloor_def fl_def)

lemma mulFloor_neg:
  assumes "a < 0" "1 / 16 \<le> c"
  shows "mulFloor a c < 0"
proof -
  define m :: rat where "m = of_int (- a)"
  define x where "x = m * c"
  have a1: "1 \<le> m" using assms(1) unfolding m_def by linarith
  have c0: "0 \<le> c" using assms(2) by linarith
  have "1 * c \<le> m * c" using a1 c0 by (rule mult_right_mono)
  then have "c \<le> x" by (simp only: x_def mult_1)
  then have xc: "1 / 16 \<le> x" using assms(2) by linarith
  then have x0: "0 < x" by linarith
  have "pow2 (- 1022) \<le> pow2 (- 4)" by (rule pow2_mono) simp
  also have "pow2 (- 4) = 1 / 16" by (simp add: pow2_neg)
  finally have "pow2 (- 1022) \<le> x" using xc by linarith
  from fl_pos[OF x0 this] have "fl (- x) < 0" by (simp only: fl_minus neg_less_0_iff_less)
  moreover have "- x = of_int a * c" unfolding x_def m_def by simp
  ultimately have "fl (of_int a * c) < 0" by (simp only:)
  then have "fl (of_int a * c) < of_int 0" by simp
  then show ?thesis unfolding mulFloor_def by (simp only: floor_less_iff)
qed

lemma numSub_ge:
  assumes "b \<le> 0" "0 \<le> a" "a \<le> 2 ^ 53"
  shows "a \<le> numSub a b"
proof -
  have "(of_int a :: rat) \<le> of_int a - of_int b" using assms(1) by simp
  from fl_ge_int[OF assms(2,3) this] show ?thesis by (simp add: numSub_def le_floor_iff)
qed

lemma numSub_zero [simp]: "numSub 0 0 = 0"
  by (simp add: numSub_def fl_def)

lemma jsSlice_past_end: "int (length xs) \<le> k \<Longrightarrow> jsSlice xs k None = []"
  by (simp add: jsSlice_def Let_def)

lemma jsSlice_zero_zero [simp]: "jsSlice xs 0 (Some 0) = []"
  by (simp add: jsSlice_def Let_def)

lemma jsSlice_neg_end:
  assumes "e < 0"
  shows "jsSlice xs 0 (Some e) = take (length xs - nat (- e)) xs"
proof -
  have "nat (max (int (length xs) + e) 0) = length xs - nat (- e)" using assms by linarith
  then show ?thesis using assms by (simp add: jsSlice_def Let_def)
qed

lemma negative_counts: "introCount (- 5) = - 1" "summaryIntro (- 5) = - 1"
  "summaryConclusion (- 1) = - 1"
  by code_simp+

text \<open>
  C9, as stated, fails: with a negative budget the counts are negative and
  \<^verbatim>\<open>slice\<close> counts a negative index from the end of the list. With three segments and
  \<^verbatim>\<open>maxSegments = -5\<close> the intro is the first two segments in both branches, and with
  \<^verbatim>\<open>maxSegments = -1\<close> the conclusion of the \<^verbatim>\<open>summary\<close> branch is the last two.
\<close>

theorem nonpositive_budget_counterexample:
  "(- 5 :: int) \<le> 0 \<and> - 5 < int (length [1, 2, 3 :: nat])
   \<and> smartIntro [1, 2, 3 :: nat] (- 5) = [1, 2]
   \<and> summaryIntroPart [1, 2, 3 :: nat] (- 5) = [1, 2]
   \<and> summaryConclusionPart [1, 2, 3 :: nat] (- 1) = [2, 3]"
  by (simp add: smartIntro_def summaryIntroPart_def summaryConclusionPart_def negative_counts
      jsSlice_def Let_def)

text \<open>
  C9, amended: for every segment list longer than \<^verbatim>\<open>maxSegments\<close> (and shorter than \<open>2^32\<close>,
  as every array is) and every \<^verbatim>\<open>maxSegments \<le> 0\<close>, the sampling branches return a result,
  flagged as truncated: every slice and every index of the model is defined for zero and
  negative counts. At \<^verbatim>\<open>maxSegments = 0\<close> the intro and the middle samples are empty in both
  branches and the conclusion of the \<^verbatim>\<open>smart\<close> branch is empty. For a negative
  \<^verbatim>\<open>maxSegments\<close> the intro count is negative and the intro is the list without its last
  segments, as many as the count says.
\<close>

theorem nonpositive_budget:
  assumes "maxSegments \<le> 0" and "maxSegments < int (length segs)" and "length segs < 2 ^ 32"
  shows "isTruncated (processTranscript segs mode maxSegments)
    \<and> (maxSegments = 0 \<longrightarrow>
          smartIntro segs maxSegments = [] \<and> smartMiddle segs maxSegments = []
          \<and> smartConclusion segs maxSegments = []
          \<and> summaryIntroPart segs maxSegments = [] \<and> summaryMiddlePart segs maxSegments = [])
    \<and> (maxSegments < 0 \<longrightarrow>
          introCount maxSegments < 0
          \<and> smartIntro segs maxSegments
              = take (length segs - nat (- introCount maxSegments)) segs
          \<and> summaryIntro maxSegments < 0
          \<and> summaryIntroPart segs maxSegments
              = take (length segs - nat (- summaryIntro maxSegments)) segs)"
proof -
  have t: "isTruncated (processTranscript segs mode maxSegments)"
    using assms(2) by (simp add: processTranscript_def)
  have z: "smartIntro segs 0 = [] \<and> smartMiddle segs 0 = [] \<and> smartConclusion segs 0 = []
      \<and> summaryIntroPart segs 0 = [] \<and> summaryMiddlePart segs 0 = []"
  proof -
    have n: "int (length segs) \<le> 2 ^ 53" using assms(3) by simp
    have "int (length segs) \<le> numSub (int (length segs)) 0"
      by (rule numSub_ge) (use n in simp_all)
    then have "int (length segs) \<le> conclusionStart segs 0"
      by (simp add: conclusionStart_def conclusionCount_def introCount_def middleCount_def)
    then have "smartConclusion segs 0 = []"
      unfolding smartConclusion_def by (rule jsSlice_past_end)
    then show ?thesis
      by (simp add: smartIntro_def smartMiddle_def introCount_def middleCount_def
          summaryIntroPart_def summaryMiddlePart_def summaryIntro_def summaryMiddle_def
          summaryConclusion_def)
  qed
  have ng: "introCount maxSegments < 0 \<and> summaryIntro maxSegments < 0" if "maxSegments < 0"
  proof
    show "introCount maxSegments < 0"
      unfolding introCount_def fl_2_10 by (rule mulFloor_neg) (use that in simp_all)
    show "summaryIntro maxSegments < 0"
      unfolding summaryIntro_def fl_1_10 by (rule mulFloor_neg) (use that in simp_all)
  qed
  show ?thesis
    using t z ng by (auto simp add: smartIntro_def summaryIntroPart_def jsSlice_neg_end)
qed

theorem nonpositive_budget_witness:
  "(0 :: int) \<le> 0 \<and> 0 < int (length [1, 2, 3 :: nat]) \<and> length [1, 2, 3 :: nat] < 2 ^ 32
   \<and> isTruncated (processTranscript [1, 2, 3 :: nat] (js ''smart'') 0)
   \<and> smartIntro [1, 2, 3 :: nat] 0 = [] \<and> smartMiddle [1, 2, 3 :: nat] 0 = []
   \<and> smartConclusion [1, 2, 3 :: nat] 0 = []
   \<and> summaryIntroPart [1, 2, 3 :: nat] 0 = [] \<and> summaryMiddlePart [1, 2, 3 :: nat] 0 = []
   \<and> (- 5 :: int) < 0 \<and> - 5 < int (length [1, 2, 3 :: nat])
   \<and> isTruncated (processTranscript [1, 2, 3 :: nat] (js ''summary'') (- 5))
   \<and> introCount (- 5) < 0 \<and> smartIntro [1, 2, 3 :: nat] (- 5) = [1, 2]"
  using nonpositive_budget [of 0 "[1, 2, 3 :: nat]" "js ''smart''"]
    nonpositive_budget [of "- 5" "[1, 2, 3 :: nat]" "js ''summary''"]
  by (simp add: negative_counts)

section \<open>The collapser on progressive cues\<close>

text \<open>
  The two Japanese cues of the scenario, as an SRT file, and the three English cues
  ``hello'', ``hello world'', ``hello world today''. The texts
  \<^verbatim>\<open>U+3053 U+3093 U+306B U+3061 U+306F\<close> and the same followed by \<^verbatim>\<open>U+4E16 U+754C\<close> are
  written as code units.
\<close>

definition konnichiwa :: jsstring where
  "konnichiwa = [12371, 12435, 12395, 12385, 12399]"

definition konnichiwaSekai :: jsstring where
  "konnichiwaSekai = [12371, 12435, 12395, 12385, 12399, 19990, 30028]"

definition srtTwoCues :: jsstring where
  "srtTwoCues =
     js ''1'' @ [10] @ js ''00:00:01,000 --> 00:00:03,000'' @ [10] @ konnichiwa @ [10, 10]
     @ js ''2'' @ [10] @ js ''00:00:03,500 --> 00:00:06,000'' @ [10] @ konnichiwaSekai @ [10]"

definition srtThreeCues :: jsstring where
  "srtThreeCues =
     js ''1'' @ [10] @ js ''00:00:01,000 --> 00:00:03,000'' @ [10] @ js ''hello'' @ [10, 10]
     @ js ''2'' @ [10] @ js ''00:00:03,000 --> 00:00:06,000'' @ [10] @ js ''hello world''
     @ [10, 10]
     @ js ''3'' @ [10] @ js ''00:00:06,000 --> 00:00:07,000'' @ [10] @ js ''hello world today''
     @ [10]"

lemma clean_konnichiwa: "cleanSubtitleText konnichiwa = konnichiwa"
  by (simp add: konnichiwa_def ev evClean)

lemma clean_konnichiwaSekai: "cleanSubtitleText konnichiwaSekai = konnichiwaSekai"
  by (simp add: konnichiwaSekai_def ev evClean)

lemma clean_hello:
  "cleanSubtitleText (js ''hello'') = js ''hello''"
  "cleanSubtitleText (js ''hello world'') = js ''hello world''"
  "cleanSubtitleText (js ''hello world today'') = js ''hello world today''"
  by (simp_all add: ev evClean)

lemmas cleanLits = clean_konnichiwa [unfolded konnichiwa_def]
  clean_konnichiwaSekai [unfolded konnichiwaSekai_def] clean_hello [unfolded js_def, simplified]

lemma srtTwoCues_parse:
  "parseSrtToSegments srtTwoCues =
     [\<lparr>segText = konnichiwa, start = Fin 1, duration = Fin 2\<rparr>,
      \<lparr>segText = konnichiwaSekai, start = Fin (7 / 2), duration = Fin (5 / 2)\<rparr>]"
  by (simp add: srtTwoCues_def konnichiwa_def konnichiwaSekai_def ev evParse nev cleanLits
      split del: if_split cong: let_weak_cong)

lemma srtThreeCues_parse:
  "parseSrtToSegments srtThreeCues =
     [\<lparr>segText = js ''hello'', start = Fin 1, duration = Fin 2\<rparr>]"
  by (simp add: srtThreeCues_def ev evParse nev cleanLits
      split del: if_split cong: let_weak_cong)



text \<open>
  C1, as stated, fails. Of the three cues ``hello'', ``hello world'' and
  ``hello world today'' the parser keeps the first and drops the other two: each of them
  begins with the last accepted text, ``hello'', followed by a space.
\<close>

theorem progressive_duplicates_counterexample:
  "map segText (parseSrtToSegments srtThreeCues) = [js ''hello'']"
  by (simp add: srtThreeCues_parse)

text \<open>
  C1, amended: for three consecutive cues with the texts ``hello'', ``hello world'' and
  ``hello world today'', whatever their times, when the duration of the first exceeds
  0.1 s the output of the collapser, started with no accepted text, is the single segment
  ``hello'' with the times of the first cue.
\<close>

theorem progressive_duplicates:
  assumes "numGreater (numMax0 (numMinus e1 s1)) (Fin (fl (1 / 10)))"
  shows "fst (addCue
            (addCue (addCue ([], []) (cueTextLines [js ''hello'']) s1 e1)
               (cueTextLines [js ''hello world'']) s2 e2)
            (cueTextLines [js ''hello world today'']) s3 e3)
         = [\<lparr>segText = js ''hello'', start = s1, duration = numMax0 (numMinus e1 s1)\<rparr>]"
proof -
  have c: "cueTextLines [js ''hello''] = [js ''hello'']"
    "cueTextLines [js ''hello world''] = [js ''hello world'']"
    "cueTextLines [js ''hello world today''] = [js ''hello world today'']"
    by (simp_all add: cueTextLines_def clean_hello isValidSegmentText_def) (simp_all add: js_def)
  have 1: "addCue ([], []) [js ''hello''] s1 e1
      = ([\<lparr>segText = js ''hello'', start = s1, duration = numMax0 (numMinus e1 s1)\<rparr>],
         js ''hello'')"
    using assms by (simp add: addCue_def createSegmentIfValid_def Let_def js_def)
  have 2: "addCue (segs, js ''hello'') [js ''hello world''] s2 e2 = (segs, js ''hello'')" for segs
    by (simp add: addCue_def createSegmentIfValid_def Let_def js_def)
  have 3: "addCue (segs, js ''hello'') [js ''hello world today''] s3 e3 = (segs, js ''hello'')"
    for segs
    by (simp add: addCue_def createSegmentIfValid_def Let_def js_def)
  show ?thesis by (simp only: c 1 2 3 fst_conv)
qed

theorem progressive_duplicates_witness:
  "numGreater (numMax0 (numMinus (Fin 3) (Fin 1))) (Fin (fl (1 / 10)))
   \<and> fst (addCue
            (addCue (addCue ([], []) (cueTextLines [js ''hello'']) (Fin 1) (Fin 3))
               (cueTextLines [js ''hello world'']) (Fin 3) (Fin 6))
            (cueTextLines [js ''hello world today'']) (Fin 6) (Fin 7))
       = [\<lparr>segText = js ''hello'', start = Fin 1, duration = Fin 2\<rparr>]"
proof -
  have d: "numGreater (numMax0 (numMinus (Fin 3) (Fin 1))) (Fin (fl (1 / 10)))"
    by (simp add: nev)
  from progressive_duplicates [OF d, of "Fin 3" "Fin 6" "Fin 6" "Fin 7"] d
  show ?thesis by (simp add: nev)
qed

section \<open>The segment invariant\<close>

text \<open>
  A segment is valid for the lines of a file when its duration exceeds 0.1 (the double
  of the source) and its text is the join of a non-empty list of lines, each of which is
  the cleaned form of a line of the file and is longer than two code units.
\<close>

definition validSegment :: "jsstring list \<Rightarrow> Segment \<Rightarrow> bool" where
  "validSegment rawLines seg =
     (numGreater (duration seg) (Fin (fl (1 / 10)))
      \<and> (\<exists>ls. ls \<noteq> []
            \<and> (\<forall>l \<in> set ls. 2 < length l \<and> l \<in> cleanSubtitleText ` set rawLines)
            \<and> segText seg = joinSp ls))"

definition srtShortCue :: jsstring where
  "srtShortCue = js ''1'' @ [10] @ js ''00:00:01,000 --> 00:00:03,000'' @ [10] @ js ''OK'' @ [10]"

lemma joinSp_length: "ls \<noteq> [] \<Longrightarrow> length (hd ls) \<le> length (joinSp ls)"
  by (induction ls rule: joinSp.induct) auto

lemma validSegment_text: "validSegment rawLines seg \<Longrightarrow> 2 < length (segText seg)"
proof -
  assume "validSegment rawLines seg"
  then obtain ls where ls: "ls \<noteq> []" "\<forall>l \<in> set ls. 2 < length l" "segText seg = joinSp ls"
    by (auto simp add: validSegment_def)
  from ls(1,2) have "2 < length (hd ls)" by (cases ls) auto
  then show ?thesis using joinSp_length[OF ls(1)] ls(3) by simp
qed

lemma cueTextLines_valid:
  "set raws \<subseteq> set rawLines \<Longrightarrow>
     \<forall>l \<in> set (cueTextLines raws). 2 < length l \<and> l \<in> cleanSubtitleText ` set rawLines"
  by (auto simp add: cueTextLines_def isValidSegmentText_def)

lemma addCue_valid:
  assumes "set raws \<subseteq> set rawLines" and "\<forall>seg \<in> set (fst st). validSegment rawLines seg"
  shows "\<forall>seg \<in> set (fst (addCue st (cueTextLines raws) s e)). validSegment rawLines seg"
proof (cases "cueTextLines raws = []")
  case True
  then show ?thesis using assms(2) by (simp add: addCue_def)
next
  case False
  show ?thesis
  proof (cases "createSegmentIfValid (joinSp (cueTextLines raws)) s e (snd st)")
    case None
    then show ?thesis using assms(2) by (simp add: addCue_def)
  next
    case (Some seg)
    then have "numGreater (duration seg) (Fin (fl (1 / 10)))"
      and "segText seg = joinSp (cueTextLines raws)"
      by (auto simp add: createSegmentIfValid_def Let_def split: if_splits)
    then have "validSegment rawLines seg"
      unfolding validSegment_def using False cueTextLines_valid[OF assms(1)] by blast
    then show ?thesis using assms(2) Some False by (simp add: addCue_def)
  qed
qed

lemma parseSrtLoop_valid:
  "set ls \<subseteq> set rawLines \<Longrightarrow> \<forall>seg \<in> set (fst st). validSegment rawLines seg \<Longrightarrow>
     \<forall>seg \<in> set (parseSrtLoop ls st). validSegment rawLines seg"
proof (induction ls st rule: parseSrtLoop.induct)
  case (1 st)
  then show ?case by simp
next
  case (2 l rest st)
  from "2.prems"(1) have rest: "set rest \<subseteq> set rawLines" by simp
  show ?case
  proof (cases "trim l = []")
    case True
    then show ?thesis using "2.IH"(1)[OF True rest "2.prems"(2)] by (subst parseSrtLoop.simps(2)) (simp del: parseSrtLoop.simps)
  next
    case False
    note nonempty = this
    show ?thesis
    proof (cases "isNumberLine l")
      case False
      then show ?thesis using "2.IH"(4)[OF nonempty False rest "2.prems"(2)] nonempty by (subst parseSrtLoop.simps(2)) (simp del: parseSrtLoop.simps)
    next
      case True
      note number = this
      show ?thesis
      proof (cases rest)
        case Nil
        then show ?thesis using nonempty number "2.prems"(2) by (subst parseSrtLoop.simps(2)) (simp del: parseSrtLoop.simps)
      next
        case (Cons t rest2)
        show ?thesis
        proof (cases "includesStr t arrow \<and> length (splitStr t arrow) = 2")
          case False
          then show ?thesis
            using "2.IH"(3)[OF nonempty number Cons False rest "2.prems"(2)] nonempty number Cons
            by (subst parseSrtLoop.simps(2)) (auto simp del: parseSrtLoop.simps)
        next
          case True
          have d: "set (dropWhile isSrtTextLine rest2) \<subseteq> set rawLines"
            using rest Cons set_dropWhileD[of _ isSrtTextLine rest2] by auto
          have t: "set (takeWhile isSrtTextLine rest2) \<subseteq> set rawLines"
            using rest Cons set_takeWhileD[of _ isSrtTextLine rest2] by auto
          show ?thesis
            using "2.IH"(2)[OF nonempty number Cons True d addCue_valid[OF t "2.prems"(2)]]
              nonempty number Cons True
            by (subst parseSrtLoop.simps(2)) (simp del: parseSrtLoop.simps)
        qed
      qed
    qed
  qed
qed

lemma parseVttLoop_valid:
  "set ls \<subseteq> set rawLines \<Longrightarrow> \<forall>seg \<in> set (fst st). validSegment rawLines seg \<Longrightarrow>
     \<forall>seg \<in> set (parseVttLoop ls st). validSegment rawLines seg"
proof (induction ls st rule: parseVttLoop.induct)
  case (1 st)
  then show ?case by simp
next
  case (2 l rest st)
  from "2.prems"(1) have rest: "set rest \<subseteq> set rawLines" by simp
  show ?case
  proof (cases "shouldSkipVttLine l")
    case True
    then show ?thesis using "2.IH"(1)[OF True rest "2.prems"(2)] by (subst parseVttLoop.simps(2)) (simp del: parseVttLoop.simps)
  next
    case False
    note keep = this
    show ?thesis
    proof (cases "trim l = js ''NOTE''")
      case True
      have d: "set (dropWhile isNoteBodyLine rest) \<subseteq> set rawLines"
        using rest set_dropWhileD[of _ isNoteBodyLine rest] by auto
      show ?thesis using "2.IH"(2)[OF keep True d "2.prems"(2)] keep True by (subst parseVttLoop.simps(2)) (simp del: parseVttLoop.simps)
    next
      case False
      note nonote = this
      show ?thesis
      proof (cases "includesStr l arrow")
        case False
        then show ?thesis
          using "2.IH"(5)[OF keep nonote False rest "2.prems"(2)] keep nonote by (subst parseVttLoop.simps(2)) (simp del: parseVttLoop.simps)
      next
        case True
        note timing = this
        define timestamps where "timestamps = splitStr (rxSplitFirst cueSettings l) arrow"
        show ?thesis
        proof (cases "length timestamps = 2")
          case False
          then show ?thesis
            using "2.IH"(4)[OF keep nonote timing timestamps_def False rest "2.prems"(2)]
              keep nonote timing
            by (subst parseVttLoop.simps(2)) (simp add: timestamps_def Let_def del: parseVttLoop.simps)
        next
          case True
          have d: "set (dropWhile isVttTextLine rest) \<subseteq> set rawLines"
            using rest set_dropWhileD[of _ isVttTextLine rest] by auto
          have t: "set (takeWhile isVttTextLine rest) \<subseteq> set rawLines"
            using rest set_takeWhileD[of _ isVttTextLine rest] by auto
          show ?thesis
            using "2.IH"(3)[OF keep nonote timing timestamps_def True d
                addCue_valid[OF t "2.prems"(2)]]
              keep nonote timing True
            by (subst parseVttLoop.simps(2)) (simp add: timestamps_def Let_def del: parseVttLoop.simps)
        qed
      qed
    qed
  qed
qed

lemma short_cue_dropped:
  "\<forall>raw \<in> set raws. length (cleanSubtitleText raw) \<le> 2 \<Longrightarrow>
     addCue st (cueTextLines raws) s e = st"
proof -
  assume "\<forall>raw \<in> set raws. length (cleanSubtitleText raw) \<le> 2"
  then have "cueTextLines raws = []"
    by (auto simp add: cueTextLines_def isValidSegmentText_def filter_empty_conv)
  then show ?thesis by (simp add: addCue_def)
qed

lemma clean_OK: "cleanSubtitleText (js ''OK'') = js ''OK''"
  by (simp add: ev evClean)

lemma srtShortCue_parse: "parseSrtToSegments srtShortCue = []"
  by (simp add: srtShortCue_def ev evParse nev clean_OK [unfolded js_def, simplified]
      split del: if_split cong: let_weak_cong)

text \<open>
  C10: every segment returned by the SRT parser and by the VTT parser has a duration
  above 0.1 and a text joined from cleaned lines of the file that are longer than two
  code units, so that the text itself is longer than two code units; and a cue whose
  cleaned lines all have at most two code units leaves the segments and the last
  accepted text as they were.
\<close>

theorem segment_invariant:
  "(\<forall>seg \<in> set (parseSrtToSegments content).
      validSegment (splitStr content [10]) seg \<and> 2 < length (segText seg))
   \<and> (\<forall>seg \<in> set (parseVttToSegments content).
        validSegment (splitStr content [10]) seg \<and> 2 < length (segText seg))
   \<and> ((\<forall>raw \<in> set raws. length (cleanSubtitleText raw) \<le> 2)
        \<longrightarrow> addCue st (cueTextLines raws) s e = st)"
proof -
  have a: "\<forall>seg \<in> set (parseSrtToSegments content). validSegment (splitStr content [10]) seg"
    unfolding parseSrtToSegments_def by (rule parseSrtLoop_valid) simp_all
  have b: "\<forall>seg \<in> set (parseVttToSegments content). validSegment (splitStr content [10]) seg"
    unfolding parseVttToSegments_def by (rule parseVttLoop_valid) simp_all
  show ?thesis using a b validSegment_text short_cue_dropped by blast
qed

theorem segment_invariant_witness:
  "parseSrtToSegments srtTwoCues =
     [\<lparr>segText = konnichiwa, start = Fin 1, duration = Fin 2\<rparr>,
      \<lparr>segText = konnichiwaSekai, start = Fin (7 / 2), duration = Fin (5 / 2)\<rparr>]
   \<and> numGreater (Fin 2) (Fin (fl (1 / 10))) \<and> 2 < length konnichiwa
   \<and> numGreater (Fin (5 / 2)) (Fin (fl (1 / 10))) \<and> 2 < length konnichiwaSekai
   \<and> length (cleanSubtitleText (js ''OK'')) \<le> 2
   \<and> addCue ([], []) (cueTextLines [js ''OK'']) (Fin 1) (Fin 3) = ([], [])
   \<and> parseSrtToSegments srtShortCue = []"
  using segment_invariant [of srtTwoCues "[js ''OK'']" "([], [])" "Fin 1" "Fin 3"]
  by (simp add: srtTwoCues_parse srtShortCue_parse validSegment_def clean_OK)
    (simp add: js_def)

section \<open>The full text of a transcript\<close>



lemma joinSp_Cons: "joinSp (x # ws) = x @ (if ws = [] then [] else 32 # joinSp ws)"
  by (cases ws) simp_all





section \<open>Idempotence of the normalizer\<close>

text \<open>
  A text is plain when it has none of the characters that start an entity, a tag, a
  bracketed sound marker or a speaker marker (\<^verbatim>\<open>&\<close>, \<^verbatim>\<open><\<close>, \<^verbatim>\<open>>\<close>, \<^verbatim>\<open>[\<close>, \<^verbatim>\<open>(\<close>) and no half-width
  katakana of the class that is widened (U+FF71 to U+FF9F).
\<close>

definition plainChar :: "jschar \<Rightarrow> bool" where
  "plainChar c =
     (c \<noteq> 38 \<and> c \<noteq> 60 \<and> c \<noteq> 62 \<and> c \<noteq> 91 \<and> c \<noteq> 40 \<and> \<not> (65393 \<le> c \<and> c \<le> 65439))"

definition plainText :: "jsstring \<Rightarrow> bool" where
  "plainText t = list_all plainChar t"

subsection \<open>Replacements that find nothing\<close>

declare rxReplace.simps [simp del]

lemma rxReplace_none:
  assumes "\<And>p s'. set s' \<subseteq> set s \<Longrightarrow> rxm r p s' = []"
  shows "rxReplace r f p s = s"
  using assms
proof (induction s arbitrary: p)
  case Nil
  then show ?case by (subst rxReplace.simps) simp
next
  case (Cons c cs)
  have "rxm r p (c # cs) = []" by (rule Cons.prems) simp
  moreover have "rxReplace r f (Some c) cs = cs"
    by (rule Cons.IH) (rule Cons.prems, auto)
  ultimately show ?case by (subst rxReplace.simps) simp
qed

lemma rxm_Cls_none: "\<forall>c \<in> set s. \<not> f c \<Longrightarrow> rxm (Cls f) p s = []"
  by (cases s) simp_all

lemma rxm_Cat_none: "rxm a p s = [] \<Longrightarrow> rxm (Cat a b) p s = []"
  by simp

lemma rxm_Bol_none: "(\<And>q. rxm a q s = []) \<Longrightarrow> rxm (Cat Bol a) p s = []"
  by simp

lemma eqCI_bracket: "eqCI 91 c \<longleftrightarrow> c = 91" "eqCI 40 c \<longleftrightarrow> c = 40"
  by (auto simp add: eqCI_def asciiLower_def isUpper_def)

lemma replaceAll_none:
  "(\<And>p s'. set s' \<subseteq> set s \<Longrightarrow> rxm r p s' = []) \<Longrightarrow> replaceAll r f s = s"
  unfolding replaceAll_def by (rule rxReplace_none)

lemma plain_subset: "plainText s \<Longrightarrow> set s' \<subseteq> set s \<Longrightarrow> plainText s'"
  by (auto simp add: plainText_def list_all_iff)

lemma plain_absent:
  assumes "plainText s"
  shows "38 \<notin> set s" "60 \<notin> set s" "62 \<notin> set s" "91 \<notin> set s" "40 \<notin> set s"
  using assms by (auto simp add: plainText_def list_all_iff plainChar_def)

lemma rxm_Chr_first: "c \<notin> set s \<Longrightarrow> rxm (Cat (Chr c) b) p s = []"
  by (cases s) (simp_all add: Chr_def)

lemma rxm_CI_first: "\<forall>x \<in> set s. \<not> eqCI c x \<Longrightarrow> rxm (Cat (Cls (eqCI c)) b) p s = []"
  by (cases s) simp_all

lemma decodeEntities_plain: "plainText s \<Longrightarrow> decodeEntities s = s"
proof -
  assume p: "plainText s"
  have a: "rxm (Cat (Chr 38) b) q s' = []" if "set s' \<subseteq> set s" for b q s'
    using plain_absent(1)[OF plain_subset[OF p that]] by (rule rxm_Chr_first)
  have n: "decodeNamed s = s"
    unfolding decodeNamed_def
    by (simp add: replaceAll_none a js_def del: rxm_Cat)
  have d: "decodeDecimal s = s"
    unfolding decodeDecimal_def
    by (rule replaceAll_none) (simp add: a rxm_Cat_none js_def del: rxm_Cat)
  have h: "decodeHex s = s"
    unfolding decodeHex_def
    by (rule replaceAll_none) (simp add: a rxm_Cat_none js_def del: rxm_Cat)
  show ?thesis by (simp add: decodeEntities_def n d h)
qed

lemma removeTags_plain: "plainText s \<Longrightarrow> removeTags s = s"
proof -
  assume p: "plainText s"
  have a: "rxm (Cat (Chr 60) b) q s' = []" if "set s' \<subseteq> set s" for b q s'
    using plain_absent(2)[OF plain_subset[OF p that]] by (rule rxm_Chr_first)
  show ?thesis
    unfolding removeTags_def remove_def
    by (simp add: replaceAll_none a del: rxm_Cat RepN_numeral)
qed

lemma stripSpeakerMarker_plain: "plainText s \<Longrightarrow> stripSpeakerMarker s = s"
proof -
  assume p: "plainText s"
  have a: "rxm (Cat (Chr 62) b) q s' = []" if "set s' \<subseteq> set s" for b q s'
    using plain_absent(3)[OF plain_subset[OF p that]] by (rule rxm_Chr_first)
  show ?thesis
    unfolding stripSpeakerMarker_def remove_def
    by (rule replaceAll_none) (simp add: js_def a rxm_Cat_none rxm_Bol_none del: rxm_Cat)
qed

lemma convertHalfWidthToFullWidth_plain: "plainText s \<Longrightarrow> convertHalfWidthToFullWidth s = s"
  unfolding convertHalfWidthToFullWidth_def
proof (rule replaceAll_none, rule rxm_Cls_none, rule ballI)
  fix s' c
  assume "plainText s" and "set s' \<subseteq> set s" and "c \<in> set s'"
  then have "plainChar c" by (auto simp add: plainText_def list_all_iff)
  then show "\<not> (65393 \<le> c \<and> c \<le> 65437 \<or> c = 65438 \<or> c = 65439)"
    by (auto simp add: plainChar_def)
qed

subsection \<open>Replacing the runs of a class\<close>

lemma rxReplace_Nil: "rxm r p [] = [] \<Longrightarrow> rxReplace r f p [] = []"
  by (subst rxReplace.simps) simp

lemma rxReplace_run_Nil [simp]: "rxReplace (PlusR (Cls g)) f p [] = []"
  by (rule rxReplace_Nil) (simp add: PlusR_def)

lemma rxReplace_run_skip:
  "\<not> g c \<Longrightarrow>
     rxReplace (PlusR (Cls g)) f p (c # cs) = c # rxReplace (PlusR (Cls g)) f (Some c) cs"
  by (subst rxReplace.simps) (simp add: rxm_run_none del: rxReplace.simps)

lemma length_dropWhile_takeWhile: "length xs - length (dropWhile P xs) = length (takeWhile P xs)"
  by (induction xs) (auto simp add: Suc_diff_le length_dropWhile_le)

lemma take_takeWhile: "take (length (takeWhile P xs)) xs = takeWhile P xs"
  by (induction xs) auto

lemma rxReplace_run_match:
  assumes "g c"
  shows "\<exists>q. rxReplace (PlusR (Cls g)) f p (c # cs)
     = f (c # takeWhile g cs) @ rxReplace (PlusR (Cls g)) f q (dropWhile g cs)"
proof -
  from rxm_run_first[of g c p cs] assms obtain q sts
    where m: "rxm (PlusR (Cls g)) p (c # cs) = (q, dropWhile g cs) # sts" by blast
  have l: "length (dropWhile g cs) < length (c # cs)"
    by (simp add: less_Suc_eq_le length_dropWhile_le)
  have t: "take (length (c # cs) - length (dropWhile g cs)) (c # cs) = c # takeWhile g cs"
    using length_dropWhile_takeWhile[of cs g] take_takeWhile[of g cs]
    by (simp add: Suc_diff_le length_dropWhile_le)
  have "rxReplace (PlusR (Cls g)) f p (c # cs)
      = f (c # takeWhile g cs) @ rxReplace (PlusR (Cls g)) f q (dropWhile g cs)"
    by (subst rxReplace.simps) (simp only: m list.case fst_conv snd_conv l t if_True)
  then show ?thesis by blast
qed

lemma filter_dropWhile_same: "filter (\<lambda>x. \<not> g x) (dropWhile g xs) = filter (\<lambda>x. \<not> g x) xs"
  by (induction xs) auto

lemma rxReplace_run_filter:
  "rxReplace (PlusR (Cls g)) (\<lambda>m. []) p s = filter (\<lambda>x. \<not> g x) s"
proof (induction "length s" arbitrary: s p rule: less_induct)
  case less
  show ?case
  proof (cases s)
    case Nil
    then show ?thesis by simp
  next
    case (Cons c cs)
    show ?thesis
    proof (cases "g c")
      case False
      then show ?thesis using less[of cs "Some c"] by (simp add: Cons rxReplace_run_skip)
    next
      case True
      from rxReplace_run_match[of g c "\<lambda>m. []" p cs] True obtain q
        where q: "rxReplace (PlusR (Cls g)) (\<lambda>m. []) p (c # cs)
          = rxReplace (PlusR (Cls g)) (\<lambda>m. []) q (dropWhile g cs)" by auto
      have "length (dropWhile g cs) < length s"
        by (simp add: Cons less_Suc_eq_le length_dropWhile_le)
      from less[OF this, of q] show ?thesis
        using True by (simp only: Cons q filter_dropWhile_same filter.simps if_False not_True_eq_False)
    qed
  qed
qed

lemma removeSoundMarkers_plain:
  assumes "plainText s"
  shows "removeSoundMarkers s = filter (\<lambda>c. c \<noteq> 9834) s"
proof -
  let ?w = "filter (\<lambda>c. c \<noteq> 9834) s"
  have n: "remove (PlusR (Chr 9834)) s = ?w"
    unfolding remove_def replaceAll_def Chr_def by (rule rxReplace_run_filter)
  have p: "plainText ?w" using assms by (rule plain_subset) auto
  have a: "rxm (Cat (Cls (eqCI 91)) b) q s' = []" if "set s' \<subseteq> set ?w" for b q s'
    using plain_absent(4)[OF plain_subset[OF p that]]
    by (intro rxm_CI_first) (auto simp add: eqCI_bracket)
  have b: "rxm (Cat (Cls (eqCI 40)) b) q s' = []" if "set s' \<subseteq> set ?w" for b q s'
    using plain_absent(5)[OF plain_subset[OF p that]]
    by (intro rxm_CI_first) (auto simp add: eqCI_bracket)
  have r: "remove (Cat (Cls (eqCI 91)) m) ?w = ?w" "remove (Cat (Cls (eqCI 40)) m) ?w = ?w" for m
    unfolding remove_def by (rule replaceAll_none, simp add: a b del: rxm_Cat)+
  show ?thesis
    unfolding removeSoundMarkers_def soundMarkers_def
    by (simp add: n r js_def del: rxm_Cat)
qed

subsection \<open>Collapsing repeated characters\<close>

text \<open>
  A text is free of runs when no code unit other than a line terminator is followed by
  three copies of itself.
\<close>

fun runFree :: "jsstring \<Rightarrow> bool" where
  "runFree [] = True"
| "runFree (c # cs) =
     ((isLineTerminator c \<or> length (takeWhile (\<lambda>x. x = c) cs) < 3) \<and> runFree cs)"

lemma rxReplace_Run_Nil [simp]: "rxReplace (Run n) f p [] = []"
  by (rule rxReplace_Nil) simp

lemma rxReplace_Run_skip:
  "isLineTerminator c \<or> length (takeWhile (\<lambda>x. x = c) cs) < n \<Longrightarrow>
     rxReplace (Run n) f p (c # cs) = c # rxReplace (Run n) f (Some c) cs"
  by (subst rxReplace.simps) (auto simp add: Let_def)

lemma drop_takeWhile: "drop (length (takeWhile P xs)) xs = dropWhile P xs"
  by (induction xs) auto

lemma rxReplace_Run_match:
  assumes "\<not> isLineTerminator c" and "n \<le> length (takeWhile (\<lambda>x. x = c) cs)"
    and f: "\<And>c m. f (c # m) = [c]"
  shows "rxReplace (Run n) f p (c # cs) = c # rxReplace (Run n) f (Some c) (dropWhile (\<lambda>x. x = c) cs)"
proof -
  let ?k = "length (takeWhile (\<lambda>x. x = c) cs)"
  have u: "rev [n..<Suc ?k] = ?k # rev [n..<?k]" using assms(2) by simp
  have m: "rxm (Run n) p (c # cs)
      = (Some c, dropWhile (\<lambda>x. x = c) cs) # map (\<lambda>j. (Some c, drop j cs)) (rev [n..<?k])"
    using assms(1,2) by (simp add: Let_def u drop_takeWhile del: upt_Suc)
  have l: "length (dropWhile (\<lambda>x. x = c) cs) < length (c # cs)"
    by (simp add: less_Suc_eq_le length_dropWhile_le)
  have "length (c # cs) - length (dropWhile (\<lambda>x. x = c) cs) = Suc ?k"
    using length_dropWhile_takeWhile[of cs "\<lambda>x. x = c"]
    by (simp add: Suc_diff_le length_dropWhile_le)
  then have t: "f (take (length (c # cs) - length (dropWhile (\<lambda>x. x = c) cs)) (c # cs)) = [c]"
    by (simp add: f)
  show ?thesis
    by (subst rxReplace.simps) (simp only: m list.case fst_conv snd_conv l t if_True append.simps)
qed

lemma collapse_Nil_iff:
  assumes f: "\<And>c m. f (c # m) = [c]"
  shows "rxReplace (Run n) f p s = [] \<longleftrightarrow> s = []"
proof (cases s)
  case Nil
  then show ?thesis by simp
next
  case (Cons c cs)
  then show ?thesis
    by (cases "isLineTerminator c \<or> length (takeWhile (\<lambda>x. x = c) cs) < n")
      (auto simp add: rxReplace_Run_skip rxReplace_Run_match[OF _ _ f])
qed

lemma collapse_hd:
  assumes f: "\<And>c m. f (c # m) = [c]" and "s \<noteq> []"
  shows "hd (rxReplace (Run n) f p s) = hd s"
proof (cases s)
  case Nil
  then show ?thesis using assms(2) by simp
next
  case (Cons c cs)
  then show ?thesis
    by (cases "isLineTerminator c \<or> length (takeWhile (\<lambda>x. x = c) cs) < n")
      (auto simp add: rxReplace_Run_skip rxReplace_Run_match[OF _ _ f])
qed

lemma takeWhile_hd: "s = [] \<or> \<not> P (hd s) \<Longrightarrow> takeWhile P s = []"
  by (cases s) auto

lemma collapse_first:
  assumes f: "\<And>c m. f (c # m) = [c]"
  shows "takeWhile (\<lambda>x. x = c) (rxReplace (Run n) f p (dropWhile (\<lambda>x. x = c) cs)) = []"
proof (cases "dropWhile (\<lambda>x. x = c) cs = []")
  case True
  show ?thesis unfolding True by simp
next
  case False
  let ?d = "dropWhile (\<lambda>x. x = c) cs"
  have "hd ?d \<noteq> c" using hd_dropWhile[OF False] .
  then have "hd (rxReplace (Run n) f p ?d) \<noteq> c" unfolding collapse_hd[OF f False] .
  then show ?thesis by (intro takeWhile_hd disjI2)
qed

lemma collapse_set:
  assumes f: "\<And>c m. f (c # m) = [c]"
  shows "set (rxReplace (Run n) f p s) \<subseteq> set s"
proof (induction "length s" arbitrary: s p rule: less_induct)
  case less
  show ?case
  proof (cases s)
    case Nil
    then show ?thesis by simp
  next
    case (Cons c cs)
    show ?thesis
    proof (cases "isLineTerminator c \<or> length (takeWhile (\<lambda>x. x = c) cs) < n")
      case True
      then show ?thesis using less[of cs "Some c"] by (auto simp add: Cons rxReplace_Run_skip)
    next
      case False
      have "length (dropWhile (\<lambda>x. x = c) cs) < length s"
        by (simp add: Cons less_Suc_eq_le length_dropWhile_le)
      from less[OF this, of "Some c"] show ?thesis
        using False set_dropWhileD[of _ "\<lambda>x. x = c" cs]
        by (auto simp add: Cons rxReplace_Run_match[OF _ _ f])
    qed
  qed
qed

lemma collapse_takeWhile:
  assumes f: "\<And>c m. f (c # m) = [c]"
  shows "length (takeWhile (\<lambda>x. x = d) (rxReplace (Run n) f p s))
     \<le> length (takeWhile (\<lambda>x. x = d) s)"
proof (induction "length s" arbitrary: s p rule: less_induct)
  case less
  show ?case
  proof (cases s)
    case Nil
    then show ?thesis by simp
  next
    case (Cons c cs)
    show ?thesis
    proof (cases "isLineTerminator c \<or> length (takeWhile (\<lambda>x. x = c) cs) < n")
      case True
      then show ?thesis using less[of cs "Some c"] by (auto simp add: Cons rxReplace_Run_skip)
    next
      case False
      then show ?thesis
        using collapse_first[OF f, of c n "Some c" cs]
        by (auto simp add: Cons rxReplace_Run_match[OF _ _ f])
    qed
  qed
qed

lemma collapse_runFree:
  assumes f: "\<And>c m. f (c # m) = [c]"
  shows "runFree (rxReplace (Run 3) f p s)"
proof (induction "length s" arbitrary: s p rule: less_induct)
  case less
  show ?case
  proof (cases s)
    case Nil
    then show ?thesis by simp
  next
    case (Cons c cs)
    show ?thesis
    proof (cases "isLineTerminator c \<or> length (takeWhile (\<lambda>x. x = c) cs) < 3")
      case True
      have "length (takeWhile (\<lambda>x. x = c) (rxReplace (Run 3) f (Some c) cs))
          \<le> length (takeWhile (\<lambda>x. x = c) cs)" by (rule collapse_takeWhile[OF f])
      then show ?thesis using True less[of cs "Some c"] by (auto simp add: Cons rxReplace_Run_skip)
    next
      case False
      have "length (dropWhile (\<lambda>x. x = c) cs) < length s"
        by (simp add: Cons less_Suc_eq_le length_dropWhile_le)
      from less[OF this, of "Some c"] show ?thesis
        using False collapse_first[OF f, of c 3 "Some c" cs]
        by (auto simp add: Cons rxReplace_Run_match[OF _ _ f])
    qed
  qed
qed

lemma runFree_collapse: "runFree s \<Longrightarrow> rxReplace (Run 3) f p s = s"
  by (induction s arbitrary: p) (auto simp add: rxReplace_Run_skip)

lemma take_1_Cons: "take 1 (c # m) = [c]"
  by simp

lemma collapseRepeats_set: "set (collapseRepeats s) \<subseteq> set s"
  unfolding collapseRepeats_def replaceAll_def by (rule collapse_set) simp

lemma collapseRepeats_runFree: "runFree (collapseRepeats s)"
  unfolding collapseRepeats_def replaceAll_def by (rule collapse_runFree) simp

lemma collapseRepeats_id: "runFree s \<Longrightarrow> collapseRepeats s = s"
  unfolding collapseRepeats_def replaceAll_def by (rule runFree_collapse)

subsection \<open>Normalizing whitespace\<close>

lemma tokenize_props:
  "w \<in> set (tokenize s) \<Longrightarrow> w \<noteq> [] \<and> (\<forall>c \<in> set w. \<not> isSpace c) \<and> set w \<subseteq> set s"
proof (induction s rule: tokenize.induct)
  case 1
  then show ?case by simp
next
  case (2 c cs)
  show ?case
  proof (cases "isSpace c")
    case True
    from "2.prems" True have "w \<in> set (tokenize cs)" by simp
    from "2.IH"(1)[OF True this] show ?thesis by auto
  next
    case False
    from "2.prems" False
    consider "w = c # takeWhile (\<lambda>x. \<not> isSpace x) cs"
      | "w \<in> set (tokenize (dropWhile (\<lambda>x. \<not> isSpace x) cs))" by auto
    then show ?thesis
    proof cases
      case 1
      then show ?thesis
        using False set_takeWhileD[of _ "\<lambda>x. \<not> isSpace x" cs] by auto
    next
      case 2
      then show ?thesis
        using "2.IH"(2)[OF False 2] set_dropWhileD[of _ "\<lambda>x. \<not> isSpace x" cs] by auto
    qed
  qed
qed

lemma tokenize_word:
  "(\<forall>c \<in> set xs. \<not> isSpace c) \<Longrightarrow> \<not> isSpace c \<Longrightarrow>
     tokenize (c # xs @ rest) = (c # xs @ takeWhile (\<lambda>x. \<not> isSpace x) rest)
        # tokenize (dropWhile (\<lambda>x. \<not> isSpace x) rest)"
  by (simp add: takeWhile_append2 dropWhile_append2)

lemma isSpace_32 [simp]: "isSpace 32"
  by (simp add: isSpace_def)

lemma tokenize_joinSp:
  "\<forall>w \<in> set ws. w \<noteq> [] \<and> (\<forall>c \<in> set w. \<not> isSpace c) \<Longrightarrow> tokenize (joinSp ws) = ws"
proof (induction ws)
  case Nil
  then show ?case by simp
next
  case (Cons x ws)
  from Cons.prems obtain c xs where x: "x = c # xs" "\<not> isSpace c" "\<forall>d \<in> set xs. \<not> isSpace d"
    by (cases x) auto
  have ih: "tokenize (joinSp ws) = ws" using Cons by simp
  show ?case
  proof (cases "ws = []")
    case True
    then show ?thesis using tokenize_word[OF x(3,2), of "[]"] by (simp add: x)
  next
    case False
    have "tokenize (c # xs @ 32 # joinSp ws) = (c # xs) # tokenize (joinSp ws)"
      using tokenize_word[OF x(3,2), of "32 # joinSp ws"] by simp
    then show ?thesis using False ih by (simp add: joinSp_Cons x)
  qed
qed

lemma joinSp_set: "set (joinSp ws) \<subseteq> insert 32 (\<Union> (set ` set ws))"
  by (induction ws rule: joinSp.induct) auto

lemma joinSp_set2: "w \<in> set ws \<Longrightarrow> set w \<subseteq> set (joinSp ws)"
  by (induction ws rule: joinSp.induct) auto

lemma tokenize_covers: "c \<in> set s \<Longrightarrow> \<not> isSpace c \<Longrightarrow> \<exists>w \<in> set (tokenize s). c \<in> set w"
proof (induction s rule: tokenize.induct)
  case 1
  then show ?case by simp
next
  case (2 d cs)
  show ?case
  proof (cases "isSpace d")
    case True
    from "2.prems" True have "c \<in> set cs" by auto
    from "2.IH"(1)[OF True this "2.prems"(2)] show ?thesis using True by simp
  next
    case False
    show ?thesis
    proof (cases "c \<in> set (d # takeWhile (\<lambda>x. \<not> isSpace x) cs)")
      case True
      then show ?thesis using False by auto
    next
      case False
      note notfirst = this
      have "set cs = set (takeWhile (\<lambda>x. \<not> isSpace x) cs) \<union> set (dropWhile (\<lambda>x. \<not> isSpace x) cs)"
        using takeWhile_dropWhile_id[of "\<lambda>x. \<not> isSpace x" cs] set_append by metis
      then have "c \<in> set (dropWhile (\<lambda>x. \<not> isSpace x) cs)" using "2.prems"(1) notfirst by auto
      from "2.IH"(2)[OF \<open>\<not> isSpace d\<close> this "2.prems"(2)] show ?thesis
        using \<open>\<not> isSpace d\<close> by auto
    qed
  qed
qed

lemma clean_tokens_set: "set (joinSp (tokenize s)) \<subseteq> insert 32 (set s)"
  using joinSp_set[of "tokenize s"] tokenize_props[of _ s] by blast

lemma clean_tokens_covers:
  "c \<in> set s \<Longrightarrow> \<not> isSpace c \<Longrightarrow> c \<in> set (joinSp (tokenize s))"
  using tokenize_covers[of c s] joinSp_set2[of _ "tokenize s"] by blast

lemma tokens_tight:
  assumes "\<forall>w \<in> set ws. w \<noteq> [] \<and> (\<forall>c \<in> set w. \<not> isSpace c)" and "ws \<noteq> []"
  shows "joinSp ws \<noteq> [] \<and> hd (joinSp ws) = hd (hd ws) \<and> \<not> isSpace (hd (joinSp ws))
     \<and> \<not> isSpace (last (joinSp ws))"
  using assms
proof (induction ws rule: joinSp.induct)
  case 1
  then show ?case by simp
next
  case (2 x)
  then show ?case by (cases x) auto
next
  case (3 x y ys)
  then show ?case by (cases x) auto
qed

lemma trim_tight:
  assumes "\<forall>c \<in> set a. isSpace c" and "\<forall>c \<in> set b. isSpace c"
    and "m = [] \<or> (\<not> isSpace (hd m) \<and> \<not> isSpace (last m))"
  shows "trim (a @ m @ b) = m"
proof (cases "m = []")
  case True
  have d: "dropWhile isSpace (a @ [] @ b) = []"
    using assms(1,2) by (auto simp add: dropWhile_eq_Nil_conv)
  show ?thesis unfolding trim_def True d by simp
next
  case False
  then have h: "\<not> isSpace (hd m)" and l: "\<not> isSpace (last m)" using assms(3) by auto
  have "dropWhile isSpace (a @ m @ b) = dropWhile isSpace (m @ b)"
    by (rule dropWhile_append2) (use assms(1) in auto)
  also have "\<dots> = m @ b" using False h by (cases m) auto
  finally have 1: "dropWhile isSpace (a @ m @ b) = m @ b" .
  have r: "rev m = last m # rev (butlast m)" using False by (cases m rule: rev_cases) auto
  have 2: "dropWhile isSpace (rev m) = rev m" unfolding r using l by simp
  have "dropWhile isSpace (rev b @ rev m) = dropWhile isSpace (rev m)"
    by (rule dropWhile_append2) (use assms(2) in auto)
  then have "dropWhile isSpace (rev (m @ b)) = rev m" using 2 by simp
  then show ?thesis by (simp add: trim_def 1)
qed

lemma clean_tokens_Cons:
  assumes "\<not> isSpace c"
  shows "joinSp (tokenize (c # cs))
     = c # (if cs \<noteq> [] \<and> isSpace (hd cs) \<and> tokenize cs \<noteq> [] then 32 # joinSp (tokenize cs)
            else joinSp (tokenize cs))"
proof (cases cs)
  case Nil
  then show ?thesis using assms by simp
next
  case (Cons d ds)
  show ?thesis
  proof (cases "isSpace d")
    case True
    then show ?thesis using assms by (simp add: Cons joinSp_Cons)
  next
    case False
    then show ?thesis using assms by (simp add: Cons joinSp_Cons)
  qed
qed

lemma tokenize_Nil_iff: "tokenize s = [] \<longleftrightarrow> (\<forall>c \<in> set s. isSpace c)"
  by (induction s) auto

lemma squeeze_spaces:
  "rxReplace (PlusR rxWs) (\<lambda>m. [32]) p s
     = (if s \<noteq> [] \<and> isSpace (hd s) then [32] else []) @ joinSp (tokenize s)
       @ (if tokenize s \<noteq> [] \<and> isSpace (last s) then [32] else [])"
proof (induction "length s" arbitrary: s p rule: less_induct)
  case less
  show ?case
  proof (cases s)
    case Nil
    then show ?thesis by simp
  next
    case (Cons c cs)
    show ?thesis
    proof (cases "isSpace c")
      case False
      have ih: "rxReplace (PlusR rxWs) (\<lambda>m. [32]) (Some c) cs
          = (if cs \<noteq> [] \<and> isSpace (hd cs) then [32] else []) @ joinSp (tokenize cs)
            @ (if tokenize cs \<noteq> [] \<and> isSpace (last cs) then [32] else [])"
        by (rule less) (simp add: Cons)
      have t: "tokenize (c # cs) \<noteq> []" using False by simp
      show ?thesis
      proof (cases "cs = []")
        case True
        then show ?thesis using False by (simp add: Cons rxReplace_run_skip)
      next
        case False
        note cs = this
        show ?thesis
        proof (cases "tokenize cs = []")
          case True
          then have sp: "\<forall>x \<in> set cs. isSpace x" by (simp add: tokenize_Nil_iff)
          then have "isSpace (hd cs)" "isSpace (last cs)" using cs by auto
          then show ?thesis
            using \<open>\<not> isSpace c\<close> cs True t
            by (simp add: Cons rxReplace_run_skip ih clean_tokens_Cons del: tokenize.simps)
        next
          case False
          then show ?thesis
            using \<open>\<not> isSpace c\<close> cs t
            by (simp add: Cons rxReplace_run_skip ih clean_tokens_Cons del: tokenize.simps)
        qed
      qed
    next
      case True
      let ?s' = "dropWhile isSpace cs"
      from rxReplace_run_match[of isSpace c "\<lambda>m. [32]" p cs] True obtain q
        where q: "rxReplace (PlusR rxWs) (\<lambda>m. [32]) p (c # cs)
          = 32 # rxReplace (PlusR rxWs) (\<lambda>m. [32]) q ?s'" by auto
      have "length ?s' < length s" by (simp add: Cons less_Suc_eq_le length_dropWhile_le)
      from less[OF this, of q]
      have ih: "rxReplace (PlusR rxWs) (\<lambda>m. [32]) q ?s'
          = (if ?s' \<noteq> [] \<and> isSpace (hd ?s') then [32] else []) @ joinSp (tokenize ?s')
            @ (if tokenize ?s' \<noteq> [] \<and> isSpace (last ?s') then [32] else [])" .
      have h: "\<not> (?s' \<noteq> [] \<and> isSpace (hd ?s'))" using hd_dropWhile[of isSpace cs] by auto
      have tk: "tokenize (c # cs) = tokenize ?s'" using True by (simp add: tokenize_dropWhile)
      have la: "tokenize ?s' \<noteq> [] \<Longrightarrow> last (c # cs) = last ?s'"
      proof -
        assume "tokenize ?s' \<noteq> []"
        then have n: "?s' \<noteq> []" by (metis tokenize.simps(1))
        then have "cs \<noteq> []" by (metis dropWhile.simps(1))
        then show ?thesis using last_dropWhile[OF n] by simp
      qed
      show ?thesis
        unfolding Cons q ih tk using h la True by (auto simp del: tokenize.simps(2))
    qed
  qed
qed

lemma normalizeWhitespace_tokens: "normalizeWhitespace s = joinSp (tokenize s)"
proof -
  have t: "joinSp (tokenize s) = []
      \<or> (\<not> isSpace (hd (joinSp (tokenize s))) \<and> \<not> isSpace (last (joinSp (tokenize s))))"
    using tokens_tight[of "tokenize s"] tokenize_props[of _ s] by (cases "tokenize s = []") auto
  have e: "js '' '' = [32]" by (simp add: js_def)
  show ?thesis
    unfolding normalizeWhitespace_def replaceAll_def e squeeze_spaces
    by (rule trim_tight) (use t in auto)
qed

lemma normalizeWhitespace_idem: "normalizeWhitespace (normalizeWhitespace s) = normalizeWhitespace s"
  using tokenize_joinSp[of "tokenize s"] tokenize_props[of _ s]
  by (simp add: normalizeWhitespace_tokens)

lemma trim_normalized: "trim (normalizeWhitespace s) = normalizeWhitespace s"
proof -
  have t: "joinSp (tokenize s) = []
      \<or> (\<not> isSpace (hd (joinSp (tokenize s))) \<and> \<not> isSpace (last (joinSp (tokenize s))))"
    using tokens_tight[of "tokenize s"] tokenize_props[of _ s] by (cases "tokenize s = []") auto
  show ?thesis
    unfolding normalizeWhitespace_tokens
    using trim_tight[of "[]" "[]" "joinSp (tokenize s)"] t by simp
qed

subsection \<open>Runs and whitespace\<close>

lemma length_takeWhile_takeWhile:
  "length (takeWhile Q (takeWhile P xs)) \<le> length (takeWhile Q xs)"
  by (induction xs) auto

lemma runFree_takeWhile: "runFree s \<Longrightarrow> runFree (takeWhile P s)"
proof (induction s)
  case Nil
  then show ?case by simp
next
  case (Cons c cs)
  then show ?case
    using length_takeWhile_takeWhile[of "\<lambda>x. x = c" P cs] by auto
qed

lemma runFree_dropWhile: "runFree s \<Longrightarrow> runFree (dropWhile P s)"
  by (induction s) auto

lemma runFree_append:
  "runFree a \<Longrightarrow> runFree b \<Longrightarrow> a = [] \<or> b = [] \<or> last a \<noteq> hd b \<Longrightarrow> runFree (a @ b)"
proof (induction a)
  case Nil
  then show ?case by simp
next
  case (Cons c as)
  have r: "runFree (as @ b)" using Cons by (cases "as = []") auto
  have "length (takeWhile (\<lambda>x. x = c) (as @ b)) = length (takeWhile (\<lambda>x. x = c) as)"
  proof (cases "\<forall>x \<in> set as. x = c")
    case True
    then have "last (c # as) = c" by (cases "as = []") auto
    then have "b = [] \<or> hd b \<noteq> c" using Cons.prems(3) by auto
    then have tb: "takeWhile (\<lambda>x. x = c) b = []" by (intro takeWhile_hd) auto
    have ta: "takeWhile (\<lambda>x. x = c) as = as" using True by (simp add: takeWhile_eq_all_conv)
    have tab: "takeWhile (\<lambda>x. x = c) (as @ b) = as @ takeWhile (\<lambda>x. x = c) b"
      by (rule takeWhile_append2) (use True in auto)
    show ?thesis by (simp only: tab tb ta append_Nil2)
  next
    case False
    then obtain x where "x \<in> set as" "\<not> x = c" by auto
    then have "takeWhile (\<lambda>x. x = c) (as @ b) = takeWhile (\<lambda>x. x = c) as"
      by (rule takeWhile_append1)
    then show ?thesis by simp
  qed
  then show ?case using Cons.prems(1) r by simp
qed

lemma runFree_tokens: "runFree s \<Longrightarrow> w \<in> set (tokenize s) \<Longrightarrow> runFree w"
proof (induction s rule: tokenize.induct)
  case 1
  then show ?case by simp
next
  case (2 c cs)
  show ?case
  proof (cases "isSpace c")
    case True
    from "2.prems" True have "runFree cs" "w \<in> set (tokenize cs)" by auto
    then show ?thesis using "2.IH"(1)[OF True] by simp
  next
    case False
    from "2.prems"(2) False
    consider "w = c # takeWhile (\<lambda>x. \<not> isSpace x) cs"
      | "w \<in> set (tokenize (dropWhile (\<lambda>x. \<not> isSpace x) cs))" by auto
    then show ?thesis
    proof cases
      case 1
      have "runFree (takeWhile (\<lambda>x. \<not> isSpace x) (c # cs))"
        using "2.prems"(1) by (rule runFree_takeWhile)
      then show ?thesis using False 1 by simp
    next
      case 2
      have "runFree (dropWhile (\<lambda>x. \<not> isSpace x) cs)"
        using "2.prems"(1) by (auto intro: runFree_dropWhile)
      from "2.IH"(2)[OF False this 2] show ?thesis .
    qed
  qed
qed

lemma runFree_joinSp:
  assumes "\<forall>w \<in> set ws. w \<noteq> [] \<and> (\<forall>c \<in> set w. \<not> isSpace c) \<and> runFree w"
  shows "runFree (joinSp ws)"
  using assms
proof (induction ws rule: joinSp.induct)
  case 1
  then show ?case by simp
next
  case (2 x)
  then show ?case by simp
next
  case (3 x y ys)
  have t: "\<forall>w \<in> set (y # ys). w \<noteq> [] \<and> (\<forall>c \<in> set w. \<not> isSpace c)" using 3(2) by auto
  have r: "runFree (joinSp (y # ys))" using 3 by simp
  have "y # ys \<noteq> []" by simp
  from tokens_tight[OF t this] have "\<not> isSpace (hd (joinSp (y # ys)))" by blast
  then have "hd (joinSp (y # ys)) \<noteq> 32" using isSpace_32 by metis
  then have "takeWhile (\<lambda>x. x = 32) (joinSp (y # ys)) = []" by (intro takeWhile_hd) simp
  then have r2: "runFree (32 # joinSp (y # ys))" using r by simp
  have "x \<noteq> []" "\<not> isSpace (last x)" using 3(2) by auto
  then have "last x \<noteq> 32" using isSpace_32 by metis
  then have "runFree (x @ 32 # joinSp (y # ys))"
    using 3(2) r2 by (intro runFree_append) auto
  then show ?case by simp
qed

lemma runFree_normalized: "runFree s \<Longrightarrow> runFree (normalizeWhitespace s)"
  unfolding normalizeWhitespace_tokens
  using runFree_tokens[of s] tokenize_props[of _ s] by (intro runFree_joinSp) blast

subsection \<open>The test for punctuation only\<close>

lemma rxm_Star_finished:
  "(\<exists>st \<in> set (rxm (Star (Cls f)) p s). snd st = []) \<longleftrightarrow> (\<forall>c \<in> set s. f c)"
proof (induction s arbitrary: p)
  case Nil
  show ?case by simp
next
  case (Cons c cs)
  show ?case
  proof (cases "f c")
    case True
    then show ?thesis using Cons[of "Some c"] by (subst rxm_Star) (simp del: rxm_Star)
  next
    case False
    then show ?thesis by simp
  qed
qed

lemma rxmL_Eol: "rxmL Eol sts \<noteq> [] \<longleftrightarrow> (\<exists>st \<in> set sts. snd st = [])"
  by (induction sts) auto

lemma rxSearch_Bol_later: "rxSearch (Cat Bol r) (Some c) s = False"
  by (induction s arbitrary: c) simp_all

lemma rxTest_all:
  "rxTest (Seqs [Bol, PlusR (Cls f), Eol]) t \<longleftrightarrow> t \<noteq> [] \<and> (\<forall>c \<in> set t. f c)"
proof (cases t)
  case Nil
  then show ?thesis by (simp add: rxTest_def PlusR_def)
next
  case (Cons c cs)
  have "rxm (Seqs [Bol, PlusR (Cls f), Eol]) None (c # cs) \<noteq> [] \<longleftrightarrow> f c \<and> (\<forall>d \<in> set cs. f d)"
    using rxm_Star_finished[of f "Some c" cs]
    by (simp add: PlusR_def rxmL_Eol del: rxm_Star)
  then show ?thesis
    unfolding rxTest_def Cons using rxSearch_Bol_later[of _ c cs]
    by (simp del: rxm_Cat)
qed

lemma punctuationOnly_iff:
  "punctuationOnly t \<longleftrightarrow>
     t \<noteq> [] \<and> (\<forall>c \<in> set t. c = 12290 \<or> c = 12289 \<or> c = 44 \<or> c = 46 \<or> c = 33 \<or> c = 63
                            \<or> c = 65281 \<or> c = 65311 \<or> isDigit c \<or> isSpace c)"
  unfolding punctuationOnly_def by (rule rxTest_all)

lemma punctuationOnly_normalized:
  assumes "\<not> punctuationOnly s"
  shows "\<not> punctuationOnly (normalizeWhitespace s)"
proof
  assume p: "punctuationOnly (normalizeWhitespace s)"
  then have n: "joinSp (tokenize s) \<noteq> []" by (simp add: punctuationOnly_iff normalizeWhitespace_tokens)
  then have "s \<noteq> []" by auto
  moreover have "c = 12290 \<or> c = 12289 \<or> c = 44 \<or> c = 46 \<or> c = 33 \<or> c = 63
      \<or> c = 65281 \<or> c = 65311 \<or> isDigit c \<or> isSpace c" if "c \<in> set s" for c
  proof (cases "isSpace c")
    case True
    then show ?thesis by simp
  next
    case False
    from clean_tokens_covers[OF that False] p show ?thesis
      by (simp add: punctuationOnly_iff normalizeWhitespace_tokens)
  qed
  ultimately have "punctuationOnly s" by (simp add: punctuationOnly_iff)
  then show False using assms by simp
qed

subsection \<open>The normalizer on plain text\<close>

lemma trim_set: "set (trim s) \<subseteq> set s"
proof -
  have "set (trim s) \<subseteq> set (dropWhile isSpace s)"
    unfolding trim_def using set_dropWhileD[of _ isSpace "rev (dropWhile isSpace s)"] by auto
  then show ?thesis using set_dropWhileD[of _ isSpace s] by auto
qed

lemma plain_32: "plainChar 32"
  by (simp add: plainChar_def)

lemma clean_plain:
  assumes "plainText t"
  shows "cleanSubtitleText t
     = finishClean (collapseRepeats (filter (\<lambda>c. c \<noteq> 9834) (trim t)))"
proof -
  let ?w = "filter (\<lambda>c. c \<noteq> 9834) (trim t)"
  have a: "plainText (trim t)" using assms trim_set by (rule plain_subset)
  have w: "plainText ?w" using a by (rule plain_subset) auto
  have c: "plainText (collapseRepeats ?w)" using w collapseRepeats_set by (rule plain_subset)
  show ?thesis
    unfolding cleanSubtitleText_def
    by (simp only: decodeEntities_plain[OF a] removeTags_plain[OF a] removeSoundMarkers_plain[OF a]
        stripSpeakerMarker_plain[OF w] convertHalfWidthToFullWidth_plain[OF c])
qed

lemma finishClean_Nil: "finishClean [] = []"
  by (simp add: finishClean_def punctuationOnly_iff normalizeWhitespace_tokens)

lemma clean_Nil: "cleanSubtitleText [] = []"
proof -
  have "plainText []" by (simp add: plainText_def)
  from clean_plain[OF this] show ?thesis
    by (simp add: trim_def collapseRepeats_def replaceAll_def finishClean_Nil)
qed

lemma clean_finished:
  assumes "plainText w" and "9834 \<notin> set w" and "runFree w"
  shows "cleanSubtitleText (finishClean w) = finishClean w"
proof (cases "punctuationOnly w")
  case True
  then show ?thesis by (simp add: finishClean_def clean_Nil)
next
  case False
  let ?y = "normalizeWhitespace w"
  have y: "finishClean w = ?y" using False by (simp add: finishClean_def)
  have s: "set ?y \<subseteq> insert 32 (set w)"
    unfolding normalizeWhitespace_tokens by (rule clean_tokens_set)
  have p: "plainText ?y"
    using assms(1) s plain_32 by (auto simp add: plainText_def list_all_iff)
  have n: "9834 \<notin> set ?y" using assms(2) s by auto
  have f: "filter (\<lambda>c. c \<noteq> 9834) ?y = ?y" using n by (simp add: filter_id_conv) metis
  have r: "runFree ?y" using assms(3) by (rule runFree_normalized)
  have "cleanSubtitleText ?y = finishClean ?y"
    by (simp only: clean_plain[OF p] trim_normalized f collapseRepeats_id[OF r])
  also have "\<dots> = ?y"
    using punctuationOnly_normalized[OF False]
    by (simp add: finishClean_def normalizeWhitespace_idem)
  finally show ?thesis by (simp only: y)
qed

subsection \<open>Idempotence\<close>

lemmas evReplace = rxReplace.simps

text \<open>
  C2, as stated, fails. A doubly escaped ampersand is decoded once by each application:
  \<^verbatim>\<open>&amp;amp;\<close> is cleaned to \<^verbatim>\<open>&amp;\<close>, and \<^verbatim>\<open>&amp;\<close> to \<^verbatim>\<open>&\<close>.
\<close>

theorem normalize_counterexample:
  "cleanSubtitleText (js ''&amp;amp;'') = js ''&amp;''
   \<and> cleanSubtitleText (cleanSubtitleText (js ''&amp;amp;'')) = js ''&''
   \<and> js ''&'' \<noteq> js ''&amp;''"
proof -
  have 1: "cleanSubtitleText (js ''&amp;amp;'') = js ''&amp;''"
    by (simp add: ev evClean evReplace)
  have 2: "cleanSubtitleText (js ''&amp;'') = js ''&''"
    by (simp add: ev evClean evReplace)
  show ?thesis by (simp only: 1 2) (simp add: js_def)
qed

text \<open>
  The other characters that a plain text may not have break idempotence as well: a tag
  uncovered by the removal of a tag, speaker markers in a row, a sound marker uncovered
  by the removal of a sound marker, and a run of four completed by the widening of a
  half-width katakana (U+FF71 followed by three U+30A2).
\<close>

lemma normalize_twice_tag:
  "cleanSubtitleText (js ''<<b>b>'') = js ''<b>''" "cleanSubtitleText (js ''<b>'') = []"
  by (simp_all add: ev evClean evReplace)

lemma normalize_twice_speaker:
  "cleanSubtitleText (js ''>>>> x'') = js ''>> x''" "cleanSubtitleText (js ''>> x'') = js ''x''"
  by (simp_all add: ev evClean evReplace)

lemma normalize_twice_marker:
  "cleanSubtitleText (js ''[[Music]Music]'') = js ''[Music]''"
  "cleanSubtitleText (js ''[Music]'') = []"
  "cleanSubtitleText (js ''((Music)Music)'') = js ''(Music)''"
  "cleanSubtitleText (js ''(Music)'') = []"
  by (simp_all add: ev evClean evReplace)

lemma normalize_twice_katakana:
  "cleanSubtitleText [65393, 12450, 12450, 12450] = [12450, 12450, 12450, 12450]"
  "cleanSubtitleText [12450, 12450, 12450, 12450] = [12450]"
  by (simp_all add: ev evClean evReplace)

text \<open>
  C2, amended: on every text that has none of the characters \<^verbatim>\<open>&\<close>, \<^verbatim>\<open><\<close>, \<^verbatim>\<open>>\<close>, \<^verbatim>\<open>[\<close>, \<^verbatim>\<open>(\<close>
  and no half-width katakana from U+FF71 to U+FF9F, cleaning the cleaned text gives the
  cleaned text.
\<close>

theorem normalize_idempotent:
  assumes "plainText t"
  shows "cleanSubtitleText (cleanSubtitleText t) = cleanSubtitleText t"
proof -
  let ?w = "collapseRepeats (filter (\<lambda>c. c \<noteq> 9834) (trim t))"
  have "set ?w \<subseteq> set (filter (\<lambda>c. c \<noteq> 9834) (trim t))" by (rule collapseRepeats_set)
  also have "\<dots> \<subseteq> set t" using trim_set[of t] by auto
  finally have s: "set ?w \<subseteq> set t" .
  have p: "plainText ?w" using assms s by (rule plain_subset)
  have n: "9834 \<notin> set ?w" using collapseRepeats_set[of "filter (\<lambda>c. c \<noteq> 9834) (trim t)"] by auto
  have r: "runFree ?w" by (rule collapseRepeats_runFree)
  show ?thesis
    unfolding clean_plain[OF assms] by (rule clean_finished[OF p n r])
qed

theorem normalize_idempotent_witness:
  "plainText (js ''  Hello   wooooorld !!!!  '')
   \<and> cleanSubtitleText (js ''  Hello   wooooorld !!!!  '') = js ''Hello world !''
   \<and> cleanSubtitleText (cleanSubtitleText (js ''  Hello   wooooorld !!!!  ''))
       = js ''Hello world !''"
proof -
  have p: "plainText (js ''  Hello   wooooorld !!!!  '')"
    by (simp add: plainText_def plainChar_def js_def)
  have c: "cleanSubtitleText (js ''  Hello   wooooorld !!!!  '') = js ''Hello world !''"
    by (simp add: ev evClean evReplace)
  from normalize_idempotent [OF p] p c show ?thesis by simp
qed

end
